theory Spec2Isabelle
  imports Main "HOL-Library.Log_Nat"
begin

text \<open>
  The WATT eviction policy of libCacheSim (\<^verbatim>\<open>libCacheSim/cache/eviction/WATT.c\<close>): every
  cached object keeps a ring of its last eight access times, and the eviction candidate is
  the lowest-scoring object of a random sample. The functions of \<^verbatim>\<open>WATT.c\<close> are
  translated one by one; what they call in the generic cache layer is modelled from the
  specification and marked as such.
\<close>

section \<open>Double-precision values\<close>

text \<open>
  The scores of \<^verbatim>\<open>WATT_to_evict\<close> are C \<^verbatim>\<open>double\<close>s. A double is a finite
  rational, an infinity or a NaN; every arithmetic result is rounded to the nearest
  value with a 53-bit significand, ties to the even significand (IEEE 754 binary64,
  exponents from -1022 to 1023, gradual underflow). Zero carries no sign here: the only
  zero this program divides by is an integer converted to \<^verbatim>\<open>double\<close>, which is +0.0.
\<close>

datatype double = Fin rat | PInf | MInf | NaN

definition pow2 :: "int \<Rightarrow> rat" where
  "pow2 z = (if 0 \<le> z then 2 ^ nat z else 1 / 2 ^ nat (- z))"

definition floor_log2 :: "rat \<Rightarrow> int" where
  "floor_log2 x =
     (let (p, q) = quotient_of x; e = bitlen p - bitlen q
      in if pow2 e \<le> x then e else e - 1)"

definition round_half_even :: "rat \<Rightarrow> int" where
  "round_half_even y =
     (let f = \<lfloor>y\<rfloor>; r = y - of_int f
      in if r < 1 / 2 then f
         else if 1 / 2 < r then f + 1
         else if even f then f else f + 1)"

text \<open>Rounding of a positive rational: the exponent, then the 53-bit significand.\<close>

definition round_pos :: "rat \<Rightarrow> rat" where
  "round_pos x =
     (let e = max (floor_log2 x) (- 1022); q = pow2 (e - 52)
      in of_int (round_half_even (x / q)) * q)"

definition double_of_rat :: "rat \<Rightarrow> double" where
  "double_of_rat x =
     (if x = 0 then Fin 0
      else let y = round_pos \<bar>x\<bar>
           in if 1024 \<le> floor_log2 y then (if 0 < x then PInf else MInf)
              else Fin (if 0 < x then y else - y))"

text \<open>The conversion \<^verbatim>\<open>(double)n\<close> of an \<^verbatim>\<open>int64_t\<close>.\<close>

definition double_of_int :: "int \<Rightarrow> double" where
  "double_of_int n = double_of_rat (of_int n)"

text \<open>The C operator \<^verbatim>\<open>/\<close> on doubles.\<close>

fun ddiv :: "double \<Rightarrow> double \<Rightarrow> double" where
  "ddiv (Fin a) (Fin b) =
     (if b = 0 then (if a = 0 then NaN else if 0 < a then PInf else MInf)
      else double_of_rat (a / b))"
| "ddiv (Fin a) PInf = Fin 0"
| "ddiv (Fin a) MInf = Fin 0"
| "ddiv PInf (Fin b) = (if 0 \<le> b then PInf else MInf)"
| "ddiv MInf (Fin b) = (if 0 \<le> b then MInf else PInf)"
| "ddiv _ _ = NaN"

text \<open>The C operator \<^verbatim>\<open>>\<close> on doubles: false whenever an operand is a NaN.\<close>

fun dgt :: "double \<Rightarrow> double \<Rightarrow> bool" where
  "dgt NaN _ = False"
| "dgt _ NaN = False"
| "dgt (Fin a) (Fin b) = (b < a)"
| "dgt (Fin a) PInf = False"
| "dgt (Fin a) MInf = True"
| "dgt PInf PInf = False"
| "dgt PInf _ = True"
| "dgt MInf _ = False"

section \<open>Data model\<close>

text \<open>
  \<^verbatim>\<open>obj_id_t\<close> is an unsigned 64-bit key that is only ever compared. A pointer to a
  live object record is represented by the identity of the record; following the pointer
  is a lookup in the hash table. Virtual times are \<^verbatim>\<open>int64_t\<close> request counts, kept
  here as mathematical integers.
\<close>

type_synonym obj_id = nat

datatype error =
    Null_Dereference
  | Assertion_Failed
  | Already_Present
  | Param_Parsing_Error string
  | Unknown_Param string
  | Exit_Process int

text \<open>The per-object WATT fields: the ring \<^verbatim>\<open>accesses[8]\<close> and its cursor.\<close>

record WATT_obj_metadata =
  accesses :: "int list"
  last_pos :: nat

record cache_obj =
  obj_id :: obj_id
  obj_size :: int
  WATT :: WATT_obj_metadata

record request =
  req_obj_id :: obj_id
  req_obj_size :: int

record common_cache_params =
  cache_size :: int
  hashpower :: int
  consider_obj_metadata :: bool

record WATT_params =
  n_sample :: int

record cache =
  cache_name :: string
  init_params :: common_cache_params
  n_req :: int
  n_obj :: int
  occupied_byte :: int
  obj_md_size :: int
  hashtable :: "cache_obj list"
  eviction_params :: WATT_params
  to_evict_candidate :: "obj_id option"
  to_evict_candidate_gen_vtime :: int
  rand_seq :: "nat \<Rightarrow> nat"
  rand_pos :: nat

section \<open>The hash index and the object store\<close>

text \<open>
  Modelled from the spec: \<^verbatim>\<open>hashtable_find\<close> and \<^verbatim>\<open>hashtable_delete\<close> are declared
  in \<^verbatim>\<open>hashtable.h\<close> and defined outside \<^verbatim>\<open>WATT.c\<close>. The spec: "Mapping from
  identity -> exclusive reference to the one Object Record with that identity. Keys
  unique", "lookup(identity) -> optional reference, delete(identity)". The index is the
  list of its live records.
\<close>

fun hashtable_find :: "cache_obj list \<Rightarrow> obj_id \<Rightarrow> cache_obj option" where
  "hashtable_find [] k = None"
| "hashtable_find (x # xs) k = (if obj_id x = k then Some x else hashtable_find xs k)"

text \<open>A write through a pointer: the record the lookup finds is changed in place.\<close>

fun hashtable_write :: "(cache_obj \<Rightarrow> cache_obj) \<Rightarrow> obj_id \<Rightarrow> cache_obj list \<Rightarrow> cache_obj list" where
  "hashtable_write f k [] = []"
| "hashtable_write f k (x # xs) =
     (if obj_id x = k then f x # xs else x # hashtable_write f k xs)"

fun hashtable_delete :: "cache_obj list \<Rightarrow> obj_id \<Rightarrow> cache_obj list" where
  "hashtable_delete [] k = []"
| "hashtable_delete (x # xs) k = (if obj_id x = k then xs else x # hashtable_delete xs k)"

text \<open>
  Modelled from the spec: the random generator and \<^verbatim>\<open>hashtable_rand_obj\<close> are defined
  outside \<^verbatim>\<open>WATT.c\<close>. The spec: "sample() -> reference to one uniformly-random live record" and
  "the generator must be seedable and deterministic given the same seed". The seed is the
  sequence of numbers the generator will produce, \<open>rand_seq\<close>, and \<open>rand_pos\<close> counts
  the numbers drawn so far. An index without a live record has no record to refer to:
  the sample is then the null pointer. A sample of a non-empty index is given as the
  record the returned pointer refers to.
\<close>

definition next_rand :: "cache \<Rightarrow> nat \<times> cache" where
  "next_rand c = (rand_seq c (rand_pos c), c\<lparr>rand_pos := rand_pos c + 1\<rparr>)"

definition hashtable_rand_obj :: "cache \<Rightarrow> cache_obj option \<times> cache" where
  "hashtable_rand_obj c =
     (let (r, c1) = next_rand c
      in (if hashtable c = [] then None
          else Some (hashtable c ! (r mod length (hashtable c))), c1))"

text \<open>
  Modelled from the spec: \<^verbatim>\<open>cache_find_base\<close> is defined outside \<^verbatim>\<open>WATT.c\<close>. The spec:
  "find: looks up the object", "touch(handle): no-op at the store level", "Returns nothing
  on miss; performs no mutation on miss".
\<close>

definition cache_find_base :: "cache \<Rightarrow> request \<Rightarrow> bool \<Rightarrow> obj_id option" where
  "cache_find_base c req update_cache =
     map_option obj_id (hashtable_find (hashtable c) (req_obj_id req))"

text \<open>
  Modelled from the spec: \<^verbatim>\<open>cache_insert_base\<close> is defined outside \<^verbatim>\<open>WATT.c\<close>. The spec:
  "admit(record) -> handle: inserts into Hash Index, increments object_count and
  occupied_size by record.size. Fails if identity already present (caller must check
  first)." The policy fields of the new record are zeroed.
\<close>

definition cache_insert_base :: "cache \<Rightarrow> request \<Rightarrow> error + (obj_id \<times> cache)" where
  "cache_insert_base c req =
     (if hashtable_find (hashtable c) (req_obj_id req) \<noteq> None then Inl Already_Present
      else Inr (req_obj_id req,
             c\<lparr>hashtable :=
                  \<lparr>obj_id = req_obj_id req, obj_size = req_obj_size req,
                   WATT = \<lparr>accesses = replicate 8 0, last_pos = 0\<rparr>\<rparr> # hashtable c,
               n_obj := n_obj c + 1,
               occupied_byte := occupied_byte c + req_obj_size req\<rparr>))"

section \<open>WATT: lookup and insertion\<close>

text \<open>
  \<^verbatim>\<open>WATT_find\<close>: the lookup, and on a hit with \<^verbatim>\<open>update_cache\<close> the write of the
  current virtual time into the slot after \<^verbatim>\<open>last_pos\<close>.
\<close>

definition WATT_find :: "cache \<Rightarrow> request \<Rightarrow> bool \<Rightarrow> obj_id option \<times> cache" where
  "WATT_find c req update_cache =
     (let cache_obj = cache_find_base c req update_cache
      in case cache_obj of
           None \<Rightarrow> (cache_obj, c)
         | Some p \<Rightarrow>
             if update_cache then
               (let curr_time = n_req c
                in (cache_obj,
                    c\<lparr>hashtable :=
                        hashtable_write
                          (\<lambda>x. let next_pos = (last_pos (WATT x) + 1) mod 8
                               in x\<lparr>WATT := \<lparr>accesses = (accesses (WATT x))[next_pos := curr_time],
                                              last_pos = next_pos\<rparr>\<rparr>)
                          p (hashtable c)\<rparr>))
             else (cache_obj, c))"

text \<open>\<^verbatim>\<open>WATT_insert\<close>: admission, then the eight slots and the cursor are written.\<close>

definition WATT_insert :: "cache \<Rightarrow> request \<Rightarrow> error + (obj_id \<times> cache)" where
  "WATT_insert c req =
     (case cache_insert_base c req of
        Inl e \<Rightarrow> Inl e
      | Inr (cached_obj, c1) \<Rightarrow>
          (let curr_time = n_req c1
           in Inr (cached_obj,
                c1\<lparr>hashtable :=
                     hashtable_write
                       (\<lambda>x. x\<lparr>WATT :=
                          \<lparr>accesses = (accesses (WATT x))
                              [0 := curr_time,
                               1 := curr_time - 3000000,
                               2 := curr_time - 3000000,
                               3 := curr_time - 3000000,
                               4 := curr_time - 3000000,
                               5 := curr_time - 3000000,
                               6 := curr_time - 3000000,
                               7 := curr_time - 3000000],
                           last_pos = 0\<rparr>\<rparr>)
                       cached_obj (hashtable c1)\<rparr>)))"

section \<open>WATT: the eviction candidate\<close>

text \<open>
  The score of one sampled object (the body of the sampling loop of \<^verbatim>\<open>WATT_to_evict\<close>):
  \<^verbatim>\<open>0.2 / (curr_time - accesses[last_pos])\<close>, then for \<^verbatim>\<open>i = 1 .. 7\<close> the value
  \<^verbatim>\<open>1.0*(i+1) / (curr_time - accesses[(last_pos + 8 - i) % 8])\<close> replaces the score when
  it is greater. The subtraction is on \<^verbatim>\<open>int64_t\<close> and its result is converted to
  \<^verbatim>\<open>double\<close>; the product of 1.0 and a small integer is that integer.
\<close>

definition WATT_score :: "int \<Rightarrow> WATT_obj_metadata \<Rightarrow> double" where
  "WATT_score curr_time md =
     fold (\<lambda>i sampled_obj_score.
             let new_value =
                   ddiv (double_of_int (int i + 1))
                     (double_of_int (curr_time - accesses md ! ((last_pos md + 8 - i) mod 8)))
             in if dgt new_value sampled_obj_score then new_value else sampled_obj_score)
       [1..<8]
       (ddiv (double_of_rat (1 / 5)) (double_of_int (curr_time - accesses md ! last_pos md)))"

text \<open>
  The sampling loop, by the number of iterations left. The source reads the fields of
  the sampled object through the pointer \<^verbatim>\<open>hashtable_rand_obj\<close> returned, without a
  test of the pointer. The candidate is kept as a pointer: the identity of the record.
\<close>

fun WATT_to_evict_loop ::
  "nat \<Rightarrow> int \<Rightarrow> cache \<Rightarrow> obj_id option \<Rightarrow> double \<Rightarrow> error + (obj_id option \<times> double \<times> cache)" where
  "WATT_to_evict_loop 0 curr_time c best_candidate worst_candidate_score =
     Inr (best_candidate, worst_candidate_score, c)"
| "WATT_to_evict_loop (Suc n) curr_time c best_candidate worst_candidate_score =
     (case hashtable_rand_obj c of
        (None, c1) \<Rightarrow> Inl Null_Dereference
      | (Some sampled_obj, c1) \<Rightarrow>
          (let sampled_obj_score = WATT_score curr_time (WATT sampled_obj)
           in if dgt worst_candidate_score sampled_obj_score
              then WATT_to_evict_loop n curr_time c1 (Some (obj_id sampled_obj)) sampled_obj_score
              else WATT_to_evict_loop n curr_time c1 best_candidate worst_candidate_score))"

definition WATT_to_evict :: "cache \<Rightarrow> error + (obj_id option \<times> cache)" where
  "WATT_to_evict c =
     (case WATT_to_evict_loop (nat (n_sample (eviction_params c))) (n_req c) c None
             (Fin 10000000000000000) of
        Inl e \<Rightarrow> Inl e
      | Inr (best_candidate, worst_candidate_score, c1) \<Rightarrow>
          Inr (best_candidate,
               c1\<lparr>to_evict_candidate := best_candidate,
                  to_evict_candidate_gen_vtime := n_req c1\<rparr>))"

section \<open>WATT: eviction\<close>

text \<open>
  Modelled from the spec: the macro \<^verbatim>\<open>DEBUG_ASSERT\<close> is defined outside \<^verbatim>\<open>WATT.c\<close>.
  The spec:
  "Internal-consistency failures ...: fatal; ... must abort replay".
\<close>

definition DEBUG_ASSERT :: "bool \<Rightarrow> error + unit" where
  "DEBUG_ASSERT b = (if b then Inr () else Inl Assertion_Failed)"

text \<open>
  Modelled from the spec: \<^verbatim>\<open>cache_evict_base\<close> is defined outside \<^verbatim>\<open>WATT.c\<close>. The spec:
  "detach(handle): removes from Hash Index, decrements counters". It reads the record it
  is handed; handed no record, it has none to read.
\<close>

definition cache_evict_base :: "cache \<Rightarrow> obj_id option \<Rightarrow> bool \<Rightarrow> error + cache" where
  "cache_evict_base c obj remove_from_hashtable =
     (case obj of
        None \<Rightarrow> Inl Null_Dereference
      | Some p \<Rightarrow>
          (case hashtable_find (hashtable c) p of
             None \<Rightarrow> Inl Null_Dereference
           | Some x \<Rightarrow>
               Inr (c\<lparr>hashtable :=
                        (if remove_from_hashtable then hashtable_delete (hashtable c) p
                         else hashtable c),
                      n_obj := n_obj c - 1,
                      occupied_byte := occupied_byte c - obj_size x\<rparr>)))"

text \<open>
  The first statements of \<^verbatim>\<open>WATT_evict\<close>: the victim is the cached candidate when it
  was computed at the current virtual time, and a fresh candidate otherwise.
\<close>

definition WATT_evict_candidate :: "cache \<Rightarrow> error + (obj_id option \<times> cache)" where
  "WATT_evict_candidate c =
     (if to_evict_candidate_gen_vtime c = n_req c then Inr (to_evict_candidate c, c)
      else WATT_to_evict c)"

text \<open>\<^verbatim>\<open>WARN\<close> only prints.\<close>

definition WATT_evict :: "cache \<Rightarrow> error + cache" where
  "WATT_evict c =
     (case WATT_evict_candidate c of
        Inl e \<Rightarrow> Inl e
      | Inr (obj_to_evict, c1) \<Rightarrow>
          (let c2 = c1\<lparr>to_evict_candidate_gen_vtime := - 1\<rparr>
           in case (if obj_to_evict = None then DEBUG_ASSERT (n_obj c2 = 0) else Inr ()) of
                Inl e \<Rightarrow> Inl e
              | Inr u \<Rightarrow> cache_evict_base c2 obj_to_evict True))"

section \<open>Parameters and construction\<close>

text \<open>
  The C library functions \<^verbatim>\<open>WATT_parse_params\<close> calls, on strings without a NUL
  character inside. \<^verbatim>\<open>strsep\<close> cuts the string at the first delimiter and leaves the
  rest, or the null pointer when there is no delimiter.
\<close>

definition strsep :: "string option \<Rightarrow> char \<Rightarrow> string option \<times> string option" where
  "strsep stringp delim =
     (case stringp of
        None \<Rightarrow> (None, None)
      | Some s \<Rightarrow>
          if delim \<in> set s
          then (Some (takeWhile (\<lambda>c. c \<noteq> delim) s), Some (tl (dropWhile (\<lambda>c. c \<noteq> delim) s)))
          else (Some s, None))"

definition tolower :: "char \<Rightarrow> char" where
  "tolower c =
     (let n = (of_char c :: nat) in if 65 \<le> n \<and> n \<le> 90 then char_of (n + 32) else c)"

definition strcasecmp_eq :: "string \<Rightarrow> string \<Rightarrow> bool" where
  "strcasecmp_eq a b = (map tolower a = map tolower b)"

definition isspace :: "char \<Rightarrow> bool" where
  "isspace c = ((of_char c :: nat) = 32 \<or> (9 \<le> (of_char c :: nat) \<and> (of_char c :: nat) \<le> 13))"

definition digit_value :: "char \<Rightarrow> nat option" where
  "digit_value c =
     (let n = (of_char c :: nat)
      in if 48 \<le> n \<and> n \<le> 57 then Some (n - 48)
         else if 97 \<le> n \<and> n \<le> 122 then Some (n - 87)
         else if 65 \<le> n \<and> n \<le> 90 then Some (n - 55)
         else None)"

fun strtol_digits :: "int \<Rightarrow> string \<Rightarrow> int \<Rightarrow> int \<times> string" where
  "strtol_digits b [] acc = (acc, [])"
| "strtol_digits b (c # cs) acc =
     (case digit_value c of
        None \<Rightarrow> (acc, c # cs)
      | Some d \<Rightarrow> if int d < b then strtol_digits b cs (acc * b + int d) else (acc, c # cs))"

definition has_hex_prefix :: "string \<Rightarrow> bool" where
  "has_hex_prefix s =
     (case s of
        c0 # x # h # r \<Rightarrow>
          c0 = CHR ''0'' \<and> (x = CHR ''x'' \<or> x = CHR ''X'') \<and>
          (case digit_value h of None \<Rightarrow> False | Some d \<Rightarrow> d < 16)
      | _ \<Rightarrow> False)"

text \<open>
  \<^verbatim>\<open>strtol(nptr, &end, 0)\<close>: white space, a sign, the base from the prefix (\<^verbatim>\<open>0x\<close>
  before a hexadecimal digit, \<^verbatim>\<open>0\<close> for octal, decimal otherwise), the longest run of
  digits of that base. Without a digit the result is 0 and \<^verbatim>\<open>end\<close> is \<^verbatim>\<open>nptr\<close>. A
  value outside \<^verbatim>\<open>long\<close> (64 bits) is clamped.
\<close>

definition strtol :: "string \<Rightarrow> int \<times> string" where
  "strtol nptr =
     (let s1 = dropWhile isspace nptr;
          neg = (s1 \<noteq> [] \<and> hd s1 = CHR ''-'');
          s2 = (if s1 \<noteq> [] \<and> (hd s1 = CHR ''-'' \<or> hd s1 = CHR ''+'') then tl s1 else s1);
          base = (if has_hex_prefix s2 then 16
                  else if s2 \<noteq> [] \<and> hd s2 = CHR ''0'' then 8 else 10);
          s3 = (if has_hex_prefix s2 then drop 2 s2 else s2);
          (v, rest) = strtol_digits base s3 0
      in if length rest = length s3 then (0, nptr)
         else (max (- (2 ^ 63)) (min (2 ^ 63 - 1) (if neg then - v else v)), rest))"

text \<open>The cast \<^verbatim>\<open>(int)\<close> of a \<^verbatim>\<open>long\<close>: the low 32 bits, read as two's complement.\<close>

definition int_of_long :: "int \<Rightarrow> int" where
  "int_of_long n = (n + 2 ^ 31) mod 2 ^ 32 - 2 ^ 31"

text \<open>
  One iteration of the loop of \<^verbatim>\<open>WATT_parse_params\<close>, on a non-empty string: what the
  iteration reports through \<^verbatim>\<open>ERROR\<close>, and either the new parameters with the rest of
  the string or the end of the process.

  The macro \<^verbatim>\<open>ERROR\<close> is defined outside \<^verbatim>\<open>WATT.c\<close>. It reports its message; whether
  it also ends the process is the parameter \<open>error_exits\<close>. The branch of \<^verbatim>\<open>n-sample\<close>
  assigns \<^verbatim>\<open>n_sample\<close> before it tests \<^verbatim>\<open>end\<close> and has no exit of its own; the branch
  of an unknown key calls \<^verbatim>\<open>exit(1)\<close> after \<^verbatim>\<open>ERROR\<close>. \<^verbatim>\<open>strtol\<close> reads its
  argument, which is the null pointer when the string has no \<^verbatim>\<open>=\<close>.
\<close>

definition WATT_parse_params_step ::
  "bool \<Rightarrow> WATT_params \<Rightarrow> string \<Rightarrow> error list \<times> (error + (WATT_params \<times> string option))" where
  "WATT_parse_params_step error_exits params s =
     (let (key, params_str1) = strsep (Some s) CHR ''='';
          (val, params_str2) = strsep params_str1 CHR '','';
          params_str3 = map_option (dropWhile (\<lambda>c. c = CHR '' '')) params_str2
      in case key of
           None \<Rightarrow> ([], Inl Null_Dereference)
         | Some k \<Rightarrow>
             if strcasecmp_eq k ''n-sample'' then
               (case val of
                  None \<Rightarrow> ([], Inl Null_Dereference)
                | Some v \<Rightarrow>
                    (let (n, end_str) = strtol v;
                         params1 = params\<lparr>n_sample := int_of_long n\<rparr>
                     in if 2 < length end_str
                        then ([Param_Parsing_Error end_str],
                              if error_exits then Inl (Param_Parsing_Error end_str)
                              else Inr (params1, params_str3))
                        else ([], Inr (params1, params_str3))))
             else if strcasecmp_eq k ''print'' then ([], Inl (Exit_Process 0))
             else ([Unknown_Param k],
                   if error_exits then Inl (Unknown_Param k) else Inl (Exit_Process 1)))"

text \<open>
  The loop of \<^verbatim>\<open>WATT_parse_params\<close>:
  \<^verbatim>\<open>while (params_str != NULL && params_str[0] != '\0')\<close>. It returns what was
  reported, in order, and the parameters or the end of the process.
\<close>

function WATT_parse_params_loop ::
  "bool \<Rightarrow> WATT_params \<Rightarrow> string option \<Rightarrow> error list \<times> (error + WATT_params)" where
  "WATT_parse_params_loop error_exits params None = ([], Inr params)"
| "WATT_parse_params_loop error_exits params (Some []) = ([], Inr params)"
| "WATT_parse_params_loop error_exits params (Some (c # cs)) =
     (case WATT_parse_params_step error_exits params (c # cs) of
        (reported, Inl e) \<Rightarrow> (reported, Inl e)
      | (reported, Inr (params1, params_str1)) \<Rightarrow>
          (case WATT_parse_params_loop error_exits params1 params_str1 of
             (reported1, r) \<Rightarrow> (reported @ reported1, r)))"
  by pat_completeness auto
termination
proof (relation "measure (\<lambda>(e, p, ps). case ps of None \<Rightarrow> 0 | Some s \<Rightarrow> Suc (length s))")
  show "wf (measure (\<lambda>(e, p, ps). case ps of None \<Rightarrow> 0 | Some s \<Rightarrow> Suc (length s)))"
    by simp
next
  fix error_exits :: bool and params :: WATT_params and c :: char and cs :: string
    and x :: "error list" and y :: "error + (WATT_params \<times> string option)"
    and b :: "WATT_params \<times> string option" and params1 :: WATT_params
    and params_str1 :: "string option"
  assume step: "(x, y) = WATT_parse_params_step error_exits params (c # cs)"
    and y: "y = Inr b" and b: "(params1, params_str1) = b"
  have cut: "length (tl (dropWhile P t)) < length t" if "t \<noteq> []" for P and t :: string
  proof -
    have "length (dropWhile P t) \<le> length t"
      by (rule length_dropWhile_le)
    moreover have "0 < length t"
      using that by simp
    moreover have "length (tl (dropWhile P t)) = length (dropWhile P t) - 1"
      by simp
    ultimately show ?thesis
      by arith
  qed
  have "length s' < length (c # cs)" if "params_str1 = Some s'" for s'
  proof -
    from step [symmetric] y b that obtain t where t: "CHR ''='' \<in> set (c # cs)"
        "t = tl (dropWhile (\<lambda>c. c \<noteq> CHR ''='') (c # cs))"
        "CHR '','' \<in> set t"
        "s' = dropWhile (\<lambda>c. c = CHR '' '') (tl (dropWhile (\<lambda>c. c \<noteq> CHR '','') t))"
      by (auto simp: WATT_parse_params_step_def strsep_def Let_def
          split: if_splits option.splits prod.splits)
    have "length s' \<le> length (tl (dropWhile (\<lambda>c. c \<noteq> CHR '','') t))"
      unfolding t(4) by (rule length_dropWhile_le)
    also have "\<dots> < length t"
      using t(3) by (intro cut) auto
    also have "length t < length (c # cs)"
      unfolding t(2) by (intro cut) simp
    finally show ?thesis .
  qed
  then show "((error_exits, params1, params_str1), error_exits, params, Some (c # cs))
      \<in> measure (\<lambda>(e, p, ps). case ps of None \<Rightarrow> 0 | Some s \<Rightarrow> Suc (length s))"
    by (cases params_str1) auto
qed

text \<open>
  \<^verbatim>\<open>WATT_parse_params\<close>: the loop runs on a copy of the string and writes the
  parameters of the cache.
\<close>

definition WATT_parse_params :: "bool \<Rightarrow> cache \<Rightarrow> string \<Rightarrow> error list \<times> (error + cache)" where
  "WATT_parse_params error_exits c cache_specific_params =
     (case WATT_parse_params_loop error_exits (eviction_params c) (Some cache_specific_params) of
        (reported, Inl e) \<Rightarrow> (reported, Inl e)
      | (reported, Inr params) \<Rightarrow> (reported, Inr (c\<lparr>eviction_params := params\<rparr>)))"

text \<open>
  Modelled from the spec: \<^verbatim>\<open>cache_struct_init\<close> is defined outside \<^verbatim>\<open>WATT.c\<close>. It builds
  the generic cache from the parameters it is handed: an empty store, the request counter
  at zero and no eviction candidate. The seed of the generator is an argument.
\<close>

definition cache_struct_init ::
  "string \<Rightarrow> common_cache_params \<Rightarrow> string option \<Rightarrow> (nat \<Rightarrow> nat) \<Rightarrow> cache" where
  "cache_struct_init name params cache_specific_params seed =
     \<lparr>cache_name = name, init_params = params, n_req = 0, n_obj = 0, occupied_byte = 0,
      obj_md_size = 0, hashtable = [], eviction_params = \<lparr>n_sample = 0\<rparr>,
      to_evict_candidate = None, to_evict_candidate_gen_vtime = - 1,
      rand_seq = seed, rand_pos = 0\<rparr>"

text \<open>
  \<^verbatim>\<open>WATT_init\<close>: the cache it returns, or the end of the process. The macro \<^verbatim>\<open>MAX\<close> is
  defined outside \<^verbatim>\<open>WATT.c\<close>: it is the greater of its two arguments. \<^verbatim>\<open>hashpower\<close>
  is kept as a mathematical integer.
\<close>

definition WATT_init ::
  "bool \<Rightarrow> (nat \<Rightarrow> nat) \<Rightarrow> common_cache_params \<Rightarrow> string option \<Rightarrow> error + cache" where
  "WATT_init error_exits seed ccache_params cache_specific_params =
     (let ccache_params_local =
            ccache_params\<lparr>hashpower := max 12 (hashpower ccache_params - 8)\<rparr>;
          cache0 = cache_struct_init ''WATT'' ccache_params_local cache_specific_params seed;
          cache1 = cache0\<lparr>eviction_params := \<lparr>n_sample = 64\<rparr>\<rparr>
      in case (case cache_specific_params of
                 None \<Rightarrow> Inr cache1
               | Some s \<Rightarrow> snd (WATT_parse_params error_exits cache1 s)) of
           Inl e \<Rightarrow> Inl e
         | Inr cache2 \<Rightarrow>
             Inr (cache2\<lparr>obj_md_size := (if consider_obj_metadata ccache_params then 8 + 8 else 0)\<rparr>))"

section \<open>Notions the properties are stated with\<close>

text \<open>
  The weight of age \<open>i + 1\<close> of an object at virtual time \<open>curr_time\<close>: the
  discounted weight of the latest access for \<open>i = 0\<close>, and \<open>i + 1\<close> over the distance
  to the access \<open>i\<close> slots back in the ring for \<open>i = 1 .. 7\<close>.
\<close>

definition WATT_weight :: "int \<Rightarrow> WATT_obj_metadata \<Rightarrow> nat \<Rightarrow> double" where
  "WATT_weight curr_time md i =
     (if i = 0
      then ddiv (double_of_rat (1 / 5)) (double_of_int (curr_time - accesses md ! last_pos md))
      else ddiv (double_of_int (int i + 1))
             (double_of_int (curr_time - accesses md ! ((last_pos md + 8 - i) mod 8))))"

text \<open>
  A score is the greatest weight of an object when it is one of the eight weights and no
  weight is greater.
\<close>

definition WATT_greatest_weight :: "int \<Rightarrow> WATT_obj_metadata \<Rightarrow> double \<Rightarrow> bool" where
  "WATT_greatest_weight curr_time md s =
     (s \<in> WATT_weight curr_time md ` {0..<8} \<and>
      (\<forall>i\<in>{0..<8}. \<not> dgt (WATT_weight curr_time md i) s))"

text \<open>
  Position \<open>j\<close> of a list of scores is the first lowest when no score of the list is
  below the score at \<open>j\<close> and every score before \<open>j\<close> is strictly above it.
\<close>

definition first_lowest :: "double list \<Rightarrow> nat \<Rightarrow> bool" where
  "first_lowest ss j =
     (j < length ss \<and> (\<forall>k\<in>{0..<length ss}. \<not> dgt (ss ! j) (ss ! k)) \<and>
      (\<forall>k\<in>{0..<j}. dgt (ss ! k) (ss ! j)))"

text \<open>The slots of the ring the score reads.\<close>

definition WATT_scored_slots :: "WATT_obj_metadata \<Rightarrow> nat list" where
  "WATT_scored_slots md = last_pos md # map (\<lambda>i. (last_pos md + 8 - i) mod 8) [1..<8]"

text \<open>
  The records the \<^verbatim>\<open>n_sample\<close> calls of \<^verbatim>\<open>hashtable_rand_obj\<close> return on a non-empty
  index, in the order of the calls.
\<close>

definition WATT_sampled :: "cache \<Rightarrow> cache_obj list" where
  "WATT_sampled c =
     map (\<lambda>i. hashtable c ! (rand_seq c (rand_pos c + i) mod length (hashtable c)))
       [0..<nat (n_sample (eviction_params c))]"

text \<open>
  A sequence of hits on one object: before each \<^verbatim>\<open>WATT_find\<close> with
  \<^verbatim>\<open>update_cache\<close> the request counter stands at the next virtual time of the list.
\<close>

fun WATT_touches :: "cache \<Rightarrow> request \<Rightarrow> int list \<Rightarrow> cache" where
  "WATT_touches c req [] = c"
| "WATT_touches c req (t # ts) =
     WATT_touches (snd (WATT_find (c\<lparr>n_req := t\<rparr>) req True)) req ts"

text \<open>
  The selection of the sampling loop on a given list of sampled records: the candidate
  and the score to beat change whenever a record scores below the score to beat.
\<close>

fun WATT_select :: "int \<Rightarrow> cache_obj list \<Rightarrow> obj_id option \<Rightarrow> double \<Rightarrow> obj_id option \<times> double" where
  "WATT_select t [] b w = (b, w)"
| "WATT_select t (x # xs) b w =
     (if dgt w (WATT_score t (WATT x))
      then WATT_select t xs (Some (obj_id x)) (WATT_score t (WATT x))
      else WATT_select t xs b w)"

text \<open>The records the next \<open>n\<close> calls of \<^verbatim>\<open>hashtable_rand_obj\<close> return.\<close>

definition samples_from :: "cache \<Rightarrow> nat \<Rightarrow> cache_obj list" where
  "samples_from c n =
     map (\<lambda>i. hashtable c ! (rand_seq c (rand_pos c + i) mod length (hashtable c))) [0..<n]"

text \<open>
  The loop of \<^verbatim>\<open>WATT_parse_params\<close> after \<open>k\<close> iterations: the parameters and the rest
  of the string with which the next iteration starts, when the loop gets that far (no
  iteration ended the process and the string was not used up before).
\<close>

fun WATT_parse_params_after ::
  "bool \<Rightarrow> nat \<Rightarrow> WATT_params \<Rightarrow> string option \<Rightarrow> (WATT_params \<times> string option) option" where
  "WATT_parse_params_after error_exits 0 params params_str = Some (params, params_str)"
| "WATT_parse_params_after error_exits (Suc k) params params_str =
     (case params_str of
        None \<Rightarrow> None
      | Some [] \<Rightarrow> None
      | Some (c # cs) \<Rightarrow>
          (case WATT_parse_params_step error_exits params (c # cs) of
             (reported, Inl e) \<Rightarrow> None
           | (reported, Inr (params1, params_str1)) \<Rightarrow>
               WATT_parse_params_after error_exits k params1 params_str1))"

section \<open>Example states\<close>

text \<open>
  Two objects at virtual time 5: object 1 was inserted at time 1 and hit at times 3 and
  4, object 2 was inserted at time 2. Three samples are drawn; the generator produces
  0, 1, 2, ...
\<close>

definition example_obj1 :: cache_obj where
  "example_obj1 =
     \<lparr>obj_id = 1, obj_size = 10,
      WATT = \<lparr>accesses = [1, 3, 4, - 2999999, - 2999999, - 2999999, - 2999999, - 2999999],
              last_pos = 2\<rparr>\<rparr>"

definition example_obj2 :: cache_obj where
  "example_obj2 =
     \<lparr>obj_id = 2, obj_size = 10,
      WATT = \<lparr>accesses = [2, - 2999998, - 2999998, - 2999998, - 2999998, - 2999998,
                          - 2999998, - 2999998],
              last_pos = 0\<rparr>\<rparr>"

definition example_cache :: cache where
  "example_cache =
     \<lparr>cache_name = ''WATT'',
      init_params = \<lparr>cache_size = 100, hashpower = 16, consider_obj_metadata = False\<rparr>,
      n_req = 5, n_obj = 2, occupied_byte = 20, obj_md_size = 0,
      hashtable = [example_obj2, example_obj1],
      eviction_params = \<lparr>n_sample = 3\<rparr>,
      to_evict_candidate = None, to_evict_candidate_gen_vtime = - 1,
      rand_seq = (\<lambda>i. i), rand_pos = 0\<rparr>"

text \<open>
  The cache right after its first insertion: built with the default parameters, one object
  inserted at virtual time 1, and the request counter still at 1.
\<close>

definition example_params :: common_cache_params where
  "example_params = \<lparr>cache_size = 100, hashpower = 24, consider_obj_metadata = False\<rparr>"

definition fresh_obj :: cache_obj where
  "fresh_obj =
     \<lparr>obj_id = 1, obj_size = 10,
      WATT = \<lparr>accesses = [1, - 2999999, - 2999999, - 2999999, - 2999999, - 2999999,
                          - 2999999, - 2999999],
              last_pos = 0\<rparr>\<rparr>"

definition fresh_cache :: cache where
  "fresh_cache =
     \<lparr>cache_name = ''WATT'',
      init_params = \<lparr>cache_size = 100, hashpower = 16, consider_obj_metadata = False\<rparr>,
      n_req = 1, n_obj = 1, occupied_byte = 10, obj_md_size = 0,
      hashtable = [fresh_obj],
      eviction_params = \<lparr>n_sample = 64\<rparr>,
      to_evict_candidate = None, to_evict_candidate_gen_vtime = - 1,
      rand_seq = (\<lambda>i. i), rand_pos = 0\<rparr>"

text \<open>The empty cache, as \<^verbatim>\<open>WATT_init\<close> builds it with the default parameters.\<close>

definition empty_cache :: cache where
  "empty_cache =
     \<lparr>cache_name = ''WATT'',
      init_params = \<lparr>cache_size = 100, hashpower = 16, consider_obj_metadata = False\<rparr>,
      n_req = 0, n_obj = 0, occupied_byte = 0, obj_md_size = 0,
      hashtable = [],
      eviction_params = \<lparr>n_sample = 64\<rparr>,
      to_evict_candidate = None, to_evict_candidate_gen_vtime = - 1,
      rand_seq = (\<lambda>i. i), rand_pos = 0\<rparr>"

section \<open>Facts about doubles and scores\<close>

lemma dgt_irrefl: "\<not> dgt a a"
  by (cases a) simp_all

lemma dgt_trans: "dgt a b \<Longrightarrow> dgt b c \<Longrightarrow> dgt a c"
  by (cases a; cases b; cases c) simp_all

lemma dgt_asym: "dgt a b \<Longrightarrow> \<not> dgt b a"
  by (cases a; cases b) simp_all

lemma dgt_neg_trans: "\<not> dgt a b \<Longrightarrow> dgt a c \<Longrightarrow> b \<noteq> NaN \<Longrightarrow> dgt b c"
  by (cases a; cases b; cases c) simp_all

lemma dgt_le_trans: "\<not> dgt a b \<Longrightarrow> \<not> dgt b c \<Longrightarrow> b \<noteq> NaN \<Longrightarrow> \<not> dgt a c"
  by (cases a; cases b; cases c) simp_all

lemma double_of_rat_not_NaN: "double_of_rat x \<noteq> NaN"
  by (simp add: double_of_rat_def Let_def)

lemma double_of_rat_fifth: "double_of_rat (1 / 5) = Fin (3602879701896397 / 18014398509481984)"
  by code_simp

lemma ddiv_pos_not_NaN: "0 < a \<Longrightarrow> ddiv (Fin a) (double_of_rat d) \<noteq> NaN"
  by (cases "double_of_rat d") (simp_all add: double_of_rat_not_NaN)

lemma fold_greater:
  assumes "s0 \<noteq> NaN" and "\<forall>i\<in>set js. f i \<noteq> NaN"
    and "r = fold (\<lambda>i s. if dgt (f i) s then f i else s) js s0"
  shows "(r = s0 \<or> r \<in> f ` set js) \<and> \<not> dgt s0 r \<and> (\<forall>i\<in>set js. \<not> dgt (f i) r) \<and> r \<noteq> NaN"
  using assms
proof (induction js arbitrary: s0)
  case Nil
  then show ?case by (simp add: dgt_irrefl)
next
  case (Cons j js)
  define s1 where "s1 = (if dgt (f j) s0 then f j else s0)"
  have s1: "s1 \<noteq> NaN"
    using Cons.prems(1,2) by (simp add: s1_def)
  have r: "r = fold (\<lambda>i s. if dgt (f i) s then f i else s) js s1"
    using Cons.prems(3) by (simp add: s1_def)
  from Cons.IH [OF s1 _ r] Cons.prems(2)
  have ih: "r = s1 \<or> r \<in> f ` set js" "\<not> dgt s1 r" "\<forall>i\<in>set js. \<not> dgt (f i) r" "r \<noteq> NaN"
    by simp_all
  have a: "\<not> dgt s0 r"
  proof (cases "dgt (f j) s0")
    case True
    then have "s1 = f j" by (simp add: s1_def)
    with ih(2) True show ?thesis
      using dgt_trans by blast
  next
    case False
    then show ?thesis using ih(2) by (simp add: s1_def)
  qed
  have b: "\<not> dgt (f j) r"
  proof (cases "dgt (f j) s0")
    case True
    then show ?thesis using ih(2) by (simp add: s1_def)
  next
    case False
    with a Cons.prems(1) show ?thesis
      using dgt_le_trans by blast
  qed
  from ih(1) have "r = s0 \<or> r \<in> f ` set (j # js)"
    by (auto simp: s1_def split: if_splits)
  with a b ih(3,4) show ?case
    by simp
qed

lemma WATT_score_fold:
  "WATT_score t md =
     fold (\<lambda>i s. if dgt (WATT_weight t md i) s then WATT_weight t md i else s) [1..<8]
       (WATT_weight t md 0)"
  unfolding WATT_score_def
  by (rule fold_cong) (auto simp: WATT_weight_def Let_def)

lemma round_half_even_of_int: "round_half_even (of_int k) = k"
  by (simp add: round_half_even_def)

lemma bitlen_pos: "0 < n \<Longrightarrow> 0 < bitlen n"
proof (rule ccontr)
  assume n: "0 < n" and "\<not> 0 < bitlen n"
  then have "nat (bitlen n) = 0"
    by simp
  with bitlen_bounds [OF n] show False
    by auto
qed

lemma bitlen_le_53:
  assumes "0 < n" and "n < 2 ^ 53"
  shows "bitlen n - 1 \<le> 52"
proof -
  have "(2::int) ^ nat (bitlen n - 1) \<le> n"
    using bitlen_bounds [OF assms(1)] by simp
  then have "(2::int) ^ nat (bitlen n - 1) < 2 ^ 53"
    using assms(2) by (rule le_less_trans)
  then have "nat (bitlen n - 1) < 53"
    by (rule power_less_imp_less_exp [rotated]) simp
  then show ?thesis
    by simp
qed

lemma floor_log2_of_int:
  assumes "0 < n"
  shows "floor_log2 (of_int n) = bitlen n - 1"
proof -
  have b: "2 ^ nat (bitlen n - 1) \<le> n"
    using bitlen_bounds [OF assms] by simp
  have nn: "0 \<le> bitlen n - 1"
    using bitlen_pos [OF assms] by simp
  have "(of_int (2 ^ nat (bitlen n - 1)) :: rat) \<le> of_int n"
    using b by (simp only: of_int_le_iff)
  then have "pow2 (bitlen n - 1) \<le> of_int n"
    using nn by (simp add: pow2_def)
  moreover have "bitlen 1 = 1"
    by code_simp
  ultimately show ?thesis
    by (simp add: floor_log2_def quotient_of_int Let_def)
qed

lemma round_pos_of_int:
  assumes "0 < n" and "n < 2 ^ 53"
  shows "round_pos (of_int n) = of_int n"
proof -
  define e where "e = bitlen n - 1"
  have e0: "0 \<le> e"
    using bitlen_pos [OF assms(1)] by (simp add: e_def)
  have e52: "e \<le> 52"
    unfolding e_def by (rule bitlen_le_53 [OF assms])
  define k where "k = nat (52 - e)"
  have q: "pow2 (e - 52) = 1 / 2 ^ k"
    using e52 by (auto simp: pow2_def k_def)
  have "of_int n / pow2 (e - 52) = (of_int (n * 2 ^ k) :: rat)"
    by (simp add: q)
  then have "round_half_even (of_int n / pow2 (e - 52)) = n * 2 ^ k"
    by (simp only: round_half_even_of_int)
  moreover have "max e (- 1022) = e"
    using e0 by simp
  moreover have "floor_log2 (of_int n) = e"
    unfolding e_def by (rule floor_log2_of_int [OF assms(1)])
  ultimately show ?thesis
    by (simp add: round_pos_def Let_def q)
qed

lemma double_of_int_exact:
  assumes "\<bar>n\<bar> < 2 ^ 53"
  shows "double_of_int n = Fin (of_int n)"
proof (cases "n = 0")
  case True
  then show ?thesis
    by (simp add: double_of_int_def double_of_rat_def)
next
  case False
  define m where "m = \<bar>n\<bar>"
  have m: "0 < m" "m < 2 ^ 53"
    using False assms by (simp_all add: m_def)
  have ab: "\<bar>of_int n :: rat\<bar> = of_int m"
    by (simp add: m_def)
  have r: "round_pos (of_int m) = of_int m"
    by (rule round_pos_of_int [OF m])
  have "floor_log2 (of_int m) \<le> 52"
    using bitlen_le_53 [OF m] by (simp only: floor_log2_of_int [OF m(1)])
  then have small: "\<not> 1024 \<le> floor_log2 (of_int m)"
    by simp
  have nz: "(of_int n :: rat) \<noteq> 0"
    using False by simp
  have "double_of_rat (of_int n) = Fin (if 0 < (of_int n :: rat) then of_int m else - of_int m)"
    unfolding double_of_rat_def ab Let_def r using nz small by simp
  also have "(if 0 < (of_int n :: rat) then of_int m else - of_int m) = (of_int n :: rat)"
    by (simp add: m_def)
  finally show ?thesis
    by (simp only: double_of_int_def)
qed

lemma WATT_numerator:
  "\<exists>a. 0 < a \<and> (if i = 0 then double_of_rat (1 / 5) else double_of_int (int i + 1)) = Fin a"
  if "i < 8"
proof (cases "i = 0")
  case True
  then show ?thesis
    by (intro exI [of _ "3602879701896397 / 18014398509481984"])
      (simp add: double_of_rat_fifth)
next
  case False
  have "\<bar>int i + 1\<bar> < 2 ^ 53"
    using that by simp
  from double_of_int_exact [OF this] show ?thesis
    using False by simp
qed

lemma WATT_weight_not_NaN: "i < 8 \<Longrightarrow> WATT_weight t md i \<noteq> NaN"
  using WATT_numerator [of i]
  by (auto simp: WATT_weight_def double_of_int_def [of "t - _"] ddiv_pos_not_NaN
      simp del: of_int_diff)

lemma WATT_weight_zero:
  assumes "i < 8"
    and "(if i = 0 then accesses md ! last_pos md
          else accesses md ! ((last_pos md + 8 - i) mod 8)) = t"
  shows "WATT_weight t md i = PInf"
proof -
  have z: "double_of_int 0 = Fin 0"
    by (simp add: double_of_int_def double_of_rat_def)
  from WATT_numerator [OF assms(1)] assms(2) show ?thesis
    by (auto simp: WATT_weight_def z split: if_splits)
qed

lemma WATT_score_greatest:
  "WATT_score t md \<in> WATT_weight t md ` {0..<8} \<and>
   (\<forall>i<8. \<not> dgt (WATT_weight t md i) (WATT_score t md)) \<and> WATT_score t md \<noteq> NaN"
proof -
  have "\<forall>i\<in>set [1..<8]. WATT_weight t md i \<noteq> NaN"
    by (simp add: WATT_weight_not_NaN)
  from fold_greater [OF WATT_weight_not_NaN [of 0 t md] this WATT_score_fold]
  have 1: "WATT_score t md = WATT_weight t md 0 \<or> WATT_score t md \<in> WATT_weight t md ` set [1..<8]"
    and 2: "\<not> dgt (WATT_weight t md 0) (WATT_score t md)"
    and 3: "\<forall>i\<in>set [1..<8]. \<not> dgt (WATT_weight t md i) (WATT_score t md)"
    and 4: "WATT_score t md \<noteq> NaN"
    by simp_all
  from 1 have "WATT_score t md \<in> WATT_weight t md ` {0..<8}"
    by auto
  moreover have "\<not> dgt (WATT_weight t md i) (WATT_score t md)" if "i < 8" for i
    using 2 3 that by (cases "i = 0") auto
  ultimately show ?thesis
    using 4 by blast
qed

lemma WATT_score_zero_slot:
  assumes "slot \<in> set (WATT_scored_slots md)" and "accesses md ! slot = t"
  shows "WATT_score t md = PInf"
proof -
  have "\<exists>i<8. WATT_weight t md i = PInf"
  proof (cases "slot = last_pos md")
    case True
    with assms(2) have "WATT_weight t md 0 = PInf"
      by (intro WATT_weight_zero) simp_all
    then show ?thesis
      by (intro exI [of _ 0]) simp
  next
    case False
    with assms(1) obtain i where "1 \<le> i" "i < 8" "slot = (last_pos md + 8 - i) mod 8"
      by (auto simp: WATT_scored_slots_def)
    with assms(2) have "WATT_weight t md i = PInf"
      by (intro WATT_weight_zero) auto
    with \<open>i < 8\<close> show ?thesis
      by blast
  qed
  then obtain i where i: "i < 8" "WATT_weight t md i = PInf"
    by blast
  from WATT_score_greatest [of t md] i have "\<not> dgt PInf (WATT_score t md)" "WATT_score t md \<noteq> NaN"
    by auto
  then show ?thesis
    by (cases "WATT_score t md") simp_all
qed

section \<open>Facts about the sampling loop\<close>

lemma hashtable_rand_obj_nonempty:
  "hashtable c \<noteq> [] \<Longrightarrow>
   hashtable_rand_obj c =
     (Some (hashtable c ! (rand_seq c (rand_pos c) mod length (hashtable c))),
      c\<lparr>rand_pos := Suc (rand_pos c)\<rparr>)"
  by (simp add: hashtable_rand_obj_def next_rand_def)

lemma samples_from_Suc:
  "samples_from c (Suc n) =
     hashtable c ! (rand_seq c (rand_pos c) mod length (hashtable c)) #
     samples_from (c\<lparr>rand_pos := Suc (rand_pos c)\<rparr>) n"
  by (simp add: samples_from_def map_upt_Suc del: upt_Suc)

lemma WATT_to_evict_loop_select:
  "hashtable c \<noteq> [] \<Longrightarrow>
   WATT_to_evict_loop n t c b w =
     Inr (fst (WATT_select t (samples_from c n) b w), snd (WATT_select t (samples_from c n) b w),
          c\<lparr>rand_pos := rand_pos c + n\<rparr>)"
proof (induction n arbitrary: c b w)
  case 0
  then show ?case by (simp add: samples_from_def)
next
  case (Suc n)
  let ?c1 = "c\<lparr>rand_pos := Suc (rand_pos c)\<rparr>"
  have ne: "hashtable ?c1 \<noteq> []"
    using Suc.prems by simp
  show ?case
    by (simp add: hashtable_rand_obj_nonempty [OF Suc.prems] samples_from_Suc Suc.IH [OF ne]
        Let_def del: WATT_select.simps(2))
      (simp add: Let_def)
qed

lemma WATT_select_first_lowest:
  assumes "w \<noteq> NaN"
  shows "case WATT_select t xs b w of
      (b', w') \<Rightarrow>
        if \<exists>x\<in>set xs. dgt w (WATT_score t (WATT x))
        then \<exists>j<length xs. b' = Some (obj_id (xs ! j)) \<and> w' = WATT_score t (WATT (xs ! j)) \<and>
               dgt w w' \<and>
               (\<forall>k<length xs. \<not> dgt w' (WATT_score t (WATT (xs ! k)))) \<and>
               (\<forall>k<j. dgt (WATT_score t (WATT (xs ! k))) w')
        else b' = b \<and> w' = w"
  using assms
proof (induction xs arbitrary: b w)
  case Nil
  then show ?case by simp
next
  case (Cons x xs)
  define s where "s = WATT_score t (WATT x)"
  have s: "s \<noteq> NaN"
    using WATT_score_greatest [of t "WATT x"] by (simp add: s_def)
  obtain b' w' where res: "WATT_select t (x # xs) b w = (b', w')"
    by (cases "WATT_select t (x # xs) b w")
  show ?case
  proof (cases "dgt w s")
    case True
    then have sel: "WATT_select t xs (Some (obj_id x)) s = (b', w')"
      using res by (simp add: s_def)
    note ih = Cons.IH [OF s, of "Some (obj_id x)", unfolded sel, simplified]
    show ?thesis
    proof (cases "\<exists>y\<in>set xs. dgt s (WATT_score t (WATT y))")
      case ex: True
      with ih obtain j where j: "j < length xs" "b' = Some (obj_id (xs ! j))"
          "w' = WATT_score t (WATT (xs ! j))" "dgt s w'"
          "\<forall>k<length xs. \<not> dgt w' (WATT_score t (WATT (xs ! k)))"
          "\<forall>k<j. dgt (WATT_score t (WATT (xs ! k))) w'"
        by auto
      have a: "\<not> dgt w' (WATT_score t (WATT ((x # xs) ! k)))" if "k < length (x # xs)" for k
        using that j(4,5) dgt_asym [OF j(4)] by (cases k) (auto simp: s_def)
      have b: "dgt (WATT_score t (WATT ((x # xs) ! k))) w'" if "k < Suc j" for k
        using that j(4,6) by (cases k) (auto simp: s_def)
      have "Suc j < length (x # xs) \<and> b' = Some (obj_id ((x # xs) ! Suc j)) \<and>
          w' = WATT_score t (WATT ((x # xs) ! Suc j)) \<and> dgt w w'"
        using j(1-4) True dgt_trans by auto
      with a b have "\<exists>j<length (x # xs). b' = Some (obj_id ((x # xs) ! j)) \<and>
               w' = WATT_score t (WATT ((x # xs) ! j)) \<and> dgt w w' \<and>
               (\<forall>k<length (x # xs). \<not> dgt w' (WATT_score t (WATT ((x # xs) ! k)))) \<and>
               (\<forall>k<j. dgt (WATT_score t (WATT ((x # xs) ! k))) w')"
        by blast
      moreover have "\<exists>y\<in>set (x # xs). dgt w (WATT_score t (WATT y))"
        using True by (auto simp: s_def)
      ultimately show ?thesis
        unfolding res by (simp del: WATT_select.simps)
    next
      case nex: False
      with ih have bw: "b' = Some (obj_id x)" "w' = s"
        by auto
      have a: "\<not> dgt w' (WATT_score t (WATT ((x # xs) ! k)))" if "k < length (x # xs)" for k
        using that nex bw(2) dgt_irrefl [of s] by (cases k) (auto simp: s_def)
      have "0 < length (x # xs) \<and> b' = Some (obj_id ((x # xs) ! 0)) \<and>
          w' = WATT_score t (WATT ((x # xs) ! 0)) \<and> dgt w w'"
        using bw True by (simp add: s_def)
      with a have "\<exists>j<length (x # xs). b' = Some (obj_id ((x # xs) ! j)) \<and>
               w' = WATT_score t (WATT ((x # xs) ! j)) \<and> dgt w w' \<and>
               (\<forall>k<length (x # xs). \<not> dgt w' (WATT_score t (WATT ((x # xs) ! k)))) \<and>
               (\<forall>k<j. dgt (WATT_score t (WATT ((x # xs) ! k))) w')"
        by blast
      moreover have "\<exists>y\<in>set (x # xs). dgt w (WATT_score t (WATT y))"
        using True by (auto simp: s_def)
      ultimately show ?thesis
        unfolding res by (simp del: WATT_select.simps)
    qed
  next
    case False
    then have sel: "WATT_select t xs b w = (b', w')"
      using res by (simp add: s_def)
    note ih = Cons.IH [OF Cons.prems, of b, unfolded sel, simplified]
    show ?thesis
    proof (cases "\<exists>y\<in>set xs. dgt w (WATT_score t (WATT y))")
      case ex: True
      with ih obtain j where j: "j < length xs" "b' = Some (obj_id (xs ! j))"
          "w' = WATT_score t (WATT (xs ! j))" "dgt w w'"
          "\<forall>k<length xs. \<not> dgt w' (WATT_score t (WATT (xs ! k)))"
          "\<forall>k<j. dgt (WATT_score t (WATT (xs ! k))) w'"
        by auto
      have sw: "dgt s w'"
        using False j(4) s by (rule dgt_neg_trans)
      have a: "\<not> dgt w' (WATT_score t (WATT ((x # xs) ! k)))" if "k < length (x # xs)" for k
        using that j(5) dgt_asym [OF sw] by (cases k) (auto simp: s_def)
      have b: "dgt (WATT_score t (WATT ((x # xs) ! k))) w'" if "k < Suc j" for k
        using that sw j(6) by (cases k) (auto simp: s_def)
      have "Suc j < length (x # xs) \<and> b' = Some (obj_id ((x # xs) ! Suc j)) \<and>
          w' = WATT_score t (WATT ((x # xs) ! Suc j)) \<and> dgt w w'"
        using j(1-4) by auto
      with a b have "\<exists>j<length (x # xs). b' = Some (obj_id ((x # xs) ! j)) \<and>
               w' = WATT_score t (WATT ((x # xs) ! j)) \<and> dgt w w' \<and>
               (\<forall>k<length (x # xs). \<not> dgt w' (WATT_score t (WATT ((x # xs) ! k)))) \<and>
               (\<forall>k<j. dgt (WATT_score t (WATT ((x # xs) ! k))) w')"
        by blast
      moreover have "\<exists>y\<in>set (x # xs). dgt w (WATT_score t (WATT y))"
        using ex by auto
      ultimately show ?thesis
        unfolding res by (simp del: WATT_select.simps)
    next
      case nex: False
      with ih have bw: "b' = b" "w' = w"
        by auto
      moreover have "\<not> (\<exists>y\<in>set (x # xs). dgt w (WATT_score t (WATT y)))"
        using nex False by (auto simp: s_def)
      ultimately show ?thesis
        unfolding res by (simp del: WATT_select.simps)
    qed
  qed
qed

lemma WATT_select_none:
  assumes "\<forall>x\<in>set xs. \<not> dgt w (WATT_score t (WATT x))"
  shows "WATT_select t xs b w = (b, w)"
  using assms by (induction xs) simp_all

lemma WATT_sampled_samples: "WATT_sampled c = samples_from c (nat (n_sample (eviction_params c)))"
  by (simp add: WATT_sampled_def samples_from_def)

lemma WATT_to_evict_select:
  assumes "hashtable c \<noteq> []"
  shows "WATT_to_evict c =
     Inr (fst (WATT_select (n_req c) (WATT_sampled c) None (Fin 10000000000000000)),
          c\<lparr>rand_pos := rand_pos c + nat (n_sample (eviction_params c)),
            to_evict_candidate :=
              fst (WATT_select (n_req c) (WATT_sampled c) None (Fin 10000000000000000)),
            to_evict_candidate_gen_vtime := n_req c\<rparr>)"
  by (simp add: WATT_to_evict_def WATT_to_evict_loop_select [OF assms] WATT_sampled_samples)

lemma WATT_to_evict_candidate:
  assumes "hashtable c \<noteq> []" and "WATT_to_evict c = Inr (r, c')"
  shows "case r of
        None \<Rightarrow>
          \<forall>x\<in>set (WATT_sampled c).
            \<not> dgt (Fin 10000000000000000) (WATT_score (n_req c) (WATT x))
      | Some p \<Rightarrow>
          \<exists>j<length (WATT_sampled c).
            p = obj_id (WATT_sampled c ! j) \<and>
            dgt (Fin 10000000000000000) (WATT_score (n_req c) (WATT (WATT_sampled c ! j))) \<and>
            (\<forall>k<length (WATT_sampled c).
               \<not> dgt (WATT_score (n_req c) (WATT (WATT_sampled c ! j)))
                   (WATT_score (n_req c) (WATT (WATT_sampled c ! k)))) \<and>
            (\<forall>k<j. dgt (WATT_score (n_req c) (WATT (WATT_sampled c ! k)))
                       (WATT_score (n_req c) (WATT (WATT_sampled c ! j))))"
proof -
  obtain b w where sel: "WATT_select (n_req c) (WATT_sampled c) None (Fin 10000000000000000) = (b, w)"
    by (cases "WATT_select (n_req c) (WATT_sampled c) None (Fin 10000000000000000)")
  with assms have r: "r = b"
    by (simp add: WATT_to_evict_select)
  have "Fin 10000000000000000 \<noteq> NaN"
    by simp
  note ch = WATT_select_first_lowest [OF this, where t = "n_req c" and xs = "WATT_sampled c"
      and b = None, unfolded sel, simplified]
  show ?thesis
  proof (cases "\<exists>x\<in>set (WATT_sampled c). dgt (Fin 10000000000000000) (WATT_score (n_req c) (WATT x))")
    case True
    with ch show ?thesis
      unfolding r by auto
  next
    case False
    with ch have "b = None"
      by auto
    with False show ?thesis
      unfolding r by simp
  qed
qed

lemma WATT_sampled_subset: "hashtable c \<noteq> [] \<Longrightarrow> set (WATT_sampled c) \<subseteq> set (hashtable c)"
  by (auto simp: WATT_sampled_def)

lemma WATT_to_evict_none:
  assumes "hashtable c \<noteq> []"
    and "\<forall>x\<in>set (hashtable c). WATT_score (n_req c) (WATT x) = PInf"
  shows "WATT_to_evict c =
     Inr (None, c\<lparr>rand_pos := rand_pos c + nat (n_sample (eviction_params c)),
                  to_evict_candidate := None, to_evict_candidate_gen_vtime := n_req c\<rparr>)"
proof -
  have "\<forall>x\<in>set (WATT_sampled c). \<not> dgt (Fin 10000000000000000) (WATT_score (n_req c) (WATT x))"
    using assms(2) WATT_sampled_subset [OF assms(1)] by auto
  then have "WATT_select (n_req c) (WATT_sampled c) None (Fin 10000000000000000) =
      (None, Fin 10000000000000000)"
    by (rule WATT_select_none)
  then show ?thesis
    by (simp add: WATT_to_evict_select [OF assms(1)])
qed

lemma hashtable_rand_obj_state:
  "snd (hashtable_rand_obj c) = c\<lparr>rand_pos := rand_pos c + 1\<rparr>"
  by (simp add: hashtable_rand_obj_def next_rand_def)

lemma WATT_to_evict_loop_state:
  "WATT_to_evict_loop n t c b w = Inr (b', w', c') \<Longrightarrow> c' = c\<lparr>rand_pos := rand_pos c + n\<rparr>"
proof (induction n arbitrary: c b w)
  case 0
  then show ?case by simp
next
  case (Suc n)
  obtain p c1 where h: "hashtable_rand_obj c = (p, c1)"
    by (cases "hashtable_rand_obj c")
  then have c1: "c1 = c\<lparr>rand_pos := rand_pos c + 1\<rparr>"
    using hashtable_rand_obj_state [of c] by simp
  from Suc.prems h obtain b1 w1 where "WATT_to_evict_loop n t c1 b1 w1 = Inr (b', w', c')"
    by (auto simp: Let_def split: option.splits if_splits)
  then have "c' = c1\<lparr>rand_pos := rand_pos c1 + n\<rparr>"
    by (rule Suc.IH)
  then show ?case
    by (simp add: c1)
qed

lemma WATT_to_evict_state:
  "WATT_to_evict c = Inr (r, c') \<Longrightarrow>
   c' = c\<lparr>rand_pos := rand_pos c + nat (n_sample (eviction_params c)),
          to_evict_candidate := r, to_evict_candidate_gen_vtime := n_req c\<rparr>"
  by (auto simp: WATT_to_evict_def split: sum.splits dest!: WATT_to_evict_loop_state)

lemma WATT_to_evict_empty_store:
  assumes "hashtable c = []" and "0 < n_sample (eviction_params c)"
  shows "WATT_to_evict c = Inl Null_Dereference"
proof -
  from assms(2) obtain n where n: "nat (n_sample (eviction_params c)) = Suc n"
    by (cases "nat (n_sample (eviction_params c))") auto
  show ?thesis
    by (simp add: WATT_to_evict_def n hashtable_rand_obj_def next_rand_def assms(1))
qed

lemma WATT_init_default_n_sample:
  "WATT_init error_exits seed p None = Inr c0 \<Longrightarrow> n_sample (eviction_params c0) = 64"
  by (auto simp: WATT_init_def cache_struct_init_def Let_def)

text \<open>
  What \<^verbatim>\<open>WATT_to_evict\<close> computes on a store that is not empty: it returns after
  \<^verbatim>\<open>n_sample\<close> samples, the results of its calls of \<^verbatim>\<open>hashtable_rand_obj\<close> in their
  order; the score of every sampled object is the greatest of its eight weights; a
  candidate it returns is the sampled object at the earliest position whose score is the
  lowest of all sampled scores, and that score is below 1.0e16; it returns no candidate
  exactly when no sampled score is below 1.0e16.
\<close>

lemma WATT_to_evict_lowest_score:
  assumes "hashtable c \<noteq> []"
  shows "\<exists>r c'. WATT_to_evict c = Inr (r, c') \<and>
     length (WATT_sampled c) = nat (n_sample (eviction_params c)) \<and>
     (\<forall>i<length (WATT_sampled c).
        fst (hashtable_rand_obj (c\<lparr>rand_pos := rand_pos c + i\<rparr>)) = Some (WATT_sampled c ! i)) \<and>
     (\<forall>x\<in>set (WATT_sampled c).
        WATT_greatest_weight (n_req c) (WATT x) (WATT_score (n_req c) (WATT x))) \<and>
     (case r of
        None \<Rightarrow>
          \<forall>x\<in>set (WATT_sampled c).
            \<not> dgt (Fin 10000000000000000) (WATT_score (n_req c) (WATT x))
      | Some p \<Rightarrow>
          \<exists>j. first_lowest (map (\<lambda>x. WATT_score (n_req c) (WATT x)) (WATT_sampled c)) j \<and>
              p = obj_id (WATT_sampled c ! j) \<and>
              dgt (Fin 10000000000000000) (WATT_score (n_req c) (WATT (WATT_sampled c ! j))))"
proof -
  from WATT_to_evict_select [OF assms] obtain r c' where te: "WATT_to_evict c = Inr (r, c')"
    by blast
  have len: "length (WATT_sampled c) = nat (n_sample (eviction_params c))"
    by (simp add: WATT_sampled_def)
  have dr: "\<forall>i<length (WATT_sampled c).
        fst (hashtable_rand_obj (c\<lparr>rand_pos := rand_pos c + i\<rparr>)) = Some (WATT_sampled c ! i)"
    using assms by (simp add: hashtable_rand_obj_def next_rand_def WATT_sampled_def)
  have gr: "\<forall>x\<in>set (WATT_sampled c).
        WATT_greatest_weight (n_req c) (WATT x) (WATT_score (n_req c) (WATT x))"
    using WATT_score_greatest by (simp add: WATT_greatest_weight_def)
  have "case r of
        None \<Rightarrow>
          \<forall>x\<in>set (WATT_sampled c).
            \<not> dgt (Fin 10000000000000000) (WATT_score (n_req c) (WATT x))
      | Some p \<Rightarrow>
          \<exists>j. first_lowest (map (\<lambda>x. WATT_score (n_req c) (WATT x)) (WATT_sampled c)) j \<and>
              p = obj_id (WATT_sampled c ! j) \<and>
              dgt (Fin 10000000000000000) (WATT_score (n_req c) (WATT (WATT_sampled c ! j)))"
  proof (cases r)
    case None
    with WATT_to_evict_candidate [OF assms te] show ?thesis
      by simp
  next
    case (Some p)
    with WATT_to_evict_candidate [OF assms te] obtain j where j: "j < length (WATT_sampled c)"
      "p = obj_id (WATT_sampled c ! j)"
      "dgt (Fin 10000000000000000) (WATT_score (n_req c) (WATT (WATT_sampled c ! j)))"
      "\<forall>k<length (WATT_sampled c).
         \<not> dgt (WATT_score (n_req c) (WATT (WATT_sampled c ! j)))
             (WATT_score (n_req c) (WATT (WATT_sampled c ! k)))"
      "\<forall>k<j. dgt (WATT_score (n_req c) (WATT (WATT_sampled c ! k)))
                 (WATT_score (n_req c) (WATT (WATT_sampled c ! j)))"
      by auto
    then have "first_lowest (map (\<lambda>x. WATT_score (n_req c) (WATT x)) (WATT_sampled c)) j"
      by (simp add: first_lowest_def)
    with j(2,3) Some show ?thesis
      by auto
  qed
  with te len dr gr show ?thesis
    by blast
qed

section \<open>Facts about the ring\<close>

lemma hashtable_find_write:
  assumes "\<And>x. obj_id (f x) = obj_id x"
  shows "hashtable_find (hashtable_write f k ht) k = map_option f (hashtable_find ht k)"
  using assms by (induction ht) simp_all

lemma hashtable_find_id: "hashtable_find ht k = Some x \<Longrightarrow> obj_id x = k"
  by (induction ht) (auto split: if_splits)

lemma ring_init:
  "(replicate 8 (0::int)) [0 := a, Suc 0 := b, 2 := b, 3 := b, 4 := b, 5 := b, 6 := b, 7 := b] =
     [a, b, b, b, b, b, b, b]"
  by (simp add: numeral_eq_Suc)

lemma ring_slots:
  fixes m i :: nat
  assumes "m < 8" and "1 \<le> i" and "i < 8"
  shows "((m + 1) mod 8 + 8 - i) mod 8 = (m + 8 - (i - 1)) mod 8"
    and "(m + 8 - (i - 1)) mod 8 \<noteq> (m + 1) mod 8"
proof -
  from assms(1) have m: "m = 0 \<or> m = 1 \<or> m = 2 \<or> m = 3 \<or> m = 4 \<or> m = 5 \<or> m = 6 \<or> m = 7"
    by arith
  from assms(2,3) have i: "i = 1 \<or> i = 2 \<or> i = 3 \<or> i = 4 \<or> i = 5 \<or> i = 6 \<or> i = 7"
    by arith
  from m i show "((m + 1) mod 8 + 8 - i) mod 8 = (m + 8 - (i - 1)) mod 8"
    by (elim disjE) simp_all
  from m i show "(m + 8 - (i - 1)) mod 8 \<noteq> (m + 1) mod 8"
    by (elim disjE) simp_all
qed

lemma WATT_insert_record:
  assumes "WATT_insert c req = Inr (p, c1)"
  shows "\<exists>x. hashtable_find (hashtable c1) (req_obj_id req) = Some x \<and>
           accesses (WATT x) =
             [n_req c, n_req c - 3000000, n_req c - 3000000, n_req c - 3000000,
              n_req c - 3000000, n_req c - 3000000, n_req c - 3000000, n_req c - 3000000] \<and>
           last_pos (WATT x) = 0"
  using assms
  by (auto simp: WATT_insert_def cache_insert_base_def ring_init Let_def split: if_splits)

lemma WATT_find_touch:
  assumes "hashtable_find (hashtable c) (req_obj_id req) = Some x"
  shows "hashtable_find (hashtable (snd (WATT_find (c\<lparr>n_req := t\<rparr>) req True))) (req_obj_id req) =
     Some (x\<lparr>WATT := \<lparr>accesses = (accesses (WATT x))[(last_pos (WATT x) + 1) mod 8 := t],
                        last_pos = (last_pos (WATT x) + 1) mod 8\<rparr>\<rparr>)"
proof -
  have k: "obj_id x = req_obj_id req"
    using assms by (rule hashtable_find_id)
  show ?thesis
    using assms
    by (simp add: WATT_find_def cache_find_base_def Let_def k hashtable_find_write)
qed

lemma WATT_touches_snoc:
  "WATT_touches c req (ts @ [t]) =
     snd (WATT_find ((WATT_touches c req ts)\<lparr>n_req := t\<rparr>) req True)"
  by (induction ts arbitrary: c) simp_all

lemma ring_step:
  fixes acc :: "int list" and hist :: "int list"
  assumes len: "length acc = 8"
    and inv: "\<forall>i<8. acc ! ((k mod 8 + 8 - i) mod 8) =
                (if i < min (k + 1) 8 then hist ! (k - i) else pre)"
    and hist: "length hist = k + 1"
  shows "\<forall>i<8. acc[(k mod 8 + 1) mod 8 := t] ! (((k mod 8 + 1) mod 8 + 8 - i) mod 8) =
                (if i < min (k + 2) 8 then (hist @ [t]) ! (k + 1 - i) else pre)"
proof (intro allI impI)
  fix i :: nat
  assume i: "i < 8"
  show "acc[(k mod 8 + 1) mod 8 := t] ! (((k mod 8 + 1) mod 8 + 8 - i) mod 8) =
                (if i < min (k + 2) 8 then (hist @ [t]) ! (k + 1 - i) else pre)"
  proof (cases "i = 0")
    case True
    have "((k mod 8 + 1) mod 8 + 8) mod 8 = (k mod 8 + 1) mod 8"
      by simp
    moreover have "(k mod 8 + 1) mod 8 < length acc"
      by (simp add: len)
    ultimately show ?thesis
      using True hist by (simp add: nth_append)
  next
    case False
    then have j: "i - 1 < 8" and i1: "1 \<le> i"
      using i by simp_all
    have m: "k mod 8 < 8"
      by simp
    have slot: "((k mod 8 + 1) mod 8 + 8 - i) mod 8 = (k mod 8 + 8 - (i - 1)) mod 8"
      by (rule ring_slots(1) [OF m i1 i])
    have ne: "(k mod 8 + 8 - (i - 1)) mod 8 \<noteq> (k mod 8 + 1) mod 8"
      by (rule ring_slots(2) [OF m i1 i])
    have "acc[(k mod 8 + 1) mod 8 := t] ! (((k mod 8 + 1) mod 8 + 8 - i) mod 8) =
        acc ! ((k mod 8 + 8 - (i - 1)) mod 8)"
      unfolding slot using ne by (simp add: nth_list_update_neq)
    also have "\<dots> = (if i - 1 < min (k + 1) 8 then hist ! (k - (i - 1)) else pre)"
      using inv j by blast
    also have "\<dots> = (if i < min (k + 2) 8 then (hist @ [t]) ! (k + 1 - i) else pre)"
    proof (cases "i < min (k + 2) 8")
      case True
      then have a: "i - 1 < min (k + 1) 8" and b: "k - (i - 1) = k + 1 - i"
        and c: "k + 1 - i < length hist"
        using i1 hist by auto
      have "(hist @ [t]) ! (k + 1 - i) = hist ! (k + 1 - i)"
        using c by (simp only: nth_append if_True)
      then show ?thesis
        using True a by (simp only: b if_True)
    next
      case False
      then have "\<not> i - 1 < min (k + 1) 8"
        using i i1 by auto
      with False show ?thesis by simp
    qed
    finally show ?thesis .
  qed
qed

section \<open>Facts about the parameter string\<close>

lemma strsep_found:
  assumes "d \<notin> set k"
  shows "strsep (Some (k @ d # r)) d = (Some k, Some r)"
proof -
  have "takeWhile (\<lambda>c. c \<noteq> d) (k @ d # r) = k"
    using assms by (induction k) auto
  moreover have "dropWhile (\<lambda>c. c \<noteq> d) (k @ d # r) = d # r"
    using assms by (induction k) auto
  ultimately show ?thesis
    by (simp add: strsep_def)
qed

lemma strsep_missing:
  assumes "d \<notin> set k"
  shows "strsep (Some k) d = (Some k, None)"
  using assms by (simp add: strsep_def)

lemma strsep_value:
  "strsep (Some r) d =
     (Some (takeWhile (\<lambda>c. c \<noteq> d) r), snd (strsep (Some r) d))"
proof (cases "d \<in> set r")
  case True
  then show ?thesis
    by (simp add: strsep_def)
next
  case False
  then have all: "takeWhile (\<lambda>c. c \<noteq> d) r = r"
    by (intro takeWhile_eq_all_conv [THEN iffD2]) auto
  from False show ?thesis
    by (simp add: strsep_def all)
qed

lemma n_sample_key_no_equals:
  assumes "strcasecmp_eq key ''n-sample''"
  shows "CHR ''='' \<notin> set key"
proof
  assume "CHR ''='' \<in> set key"
  then have "tolower CHR ''='' \<in> set (map tolower key)"
    by simp
  then have "tolower CHR ''='' \<in> set (map tolower ''n-sample'')"
    using assms unfolding strcasecmp_eq_def by (rule back_subst [where P = "\<lambda>l. tolower CHR ''='' \<in> set l"])
  moreover have "tolower CHR ''='' \<notin> set (map tolower ''n-sample'')"
    by code_simp
  ultimately show False
    by (rule notE [rotated])
qed

lemma WATT_parse_params_step_n_sample:
  assumes "strcasecmp_eq key ''n-sample''"
    and "strtol (takeWhile (\<lambda>c. c \<noteq> CHR '','') rest) = (n, e)"
  shows "WATT_parse_params_step error_exits params (key @ CHR ''='' # rest) =
           (if 2 < length e
            then ([Param_Parsing_Error e],
                  if error_exits then Inl (Param_Parsing_Error e)
                  else Inr (params\<lparr>n_sample := int_of_long n\<rparr>,
                            map_option (dropWhile (\<lambda>c. c = CHR '' ''))
                              (snd (strsep (Some rest) CHR '',''))))
            else ([], Inr (params\<lparr>n_sample := int_of_long n\<rparr>,
                           map_option (dropWhile (\<lambda>c. c = CHR '' ''))
                             (snd (strsep (Some rest) CHR '','')))))"
proof -
  have 1: "strsep (Some (key @ CHR ''='' # rest)) CHR ''='' = (Some key, Some rest)"
    by (rule strsep_found) (rule n_sample_key_no_equals [OF assms(1)])
  obtain params_str2 where 2: "strsep (Some rest) CHR '','' =
      (Some (takeWhile (\<lambda>c. c \<noteq> CHR '','') rest), params_str2)"
    using strsep_value [of rest "CHR '',''"] by simp
  show ?thesis
    by (simp add: WATT_parse_params_step_def 1 2 assms)
qed

lemma WATT_parse_params_after_loop:
  "WATT_parse_params_after error_exits k params params_str = Some (params1, params_str1) \<Longrightarrow>
   \<exists>pre. fst (WATT_parse_params_loop error_exits params params_str) =
            pre @ fst (WATT_parse_params_loop error_exits params1 params_str1) \<and>
          snd (WATT_parse_params_loop error_exits params params_str) =
            snd (WATT_parse_params_loop error_exits params1 params_str1)"
proof (induction k arbitrary: params params_str)
  case 0
  then show ?case
    by simp
next
  case (Suc k)
  from Suc.prems obtain c cs reported params2 params_str2 where
    s: "params_str = Some (c # cs)"
    and step: "WATT_parse_params_step error_exits params (c # cs) =
                 (reported, Inr (params2, params_str2))"
    and rest: "WATT_parse_params_after error_exits k params2 params_str2 =
                 Some (params1, params_str1)"
    by (auto split: option.splits list.splits prod.splits sum.splits)
  from Suc.IH [OF rest] obtain pre where
    pre: "fst (WATT_parse_params_loop error_exits params2 params_str2) =
            pre @ fst (WATT_parse_params_loop error_exits params1 params_str1)"
         "snd (WATT_parse_params_loop error_exits params2 params_str2) =
            snd (WATT_parse_params_loop error_exits params1 params_str1)"
    by blast
  have loop: "WATT_parse_params_loop error_exits params params_str =
      (reported @ fst (WATT_parse_params_loop error_exits params2 params_str2),
       snd (WATT_parse_params_loop error_exits params2 params_str2))"
    by (simp add: s step split: prod.splits)
  have "fst (WATT_parse_params_loop error_exits params params_str) =
          (reported @ pre) @ fst (WATT_parse_params_loop error_exits params1 params_str1)"
    by (simp add: loop pre)
  moreover have "snd (WATT_parse_params_loop error_exits params params_str) =
          snd (WATT_parse_params_loop error_exits params1 params_str1)"
    by (simp add: loop pre)
  ultimately show ?case
    by blast
qed

lemma WATT_parse_params_after_Suc:
  "WATT_parse_params_after error_exits k params params_str = Some (params1, Some (c # cs)) \<Longrightarrow>
   WATT_parse_params_step error_exits params1 (c # cs) = (reported, Inr (params2, params_str2)) \<Longrightarrow>
   WATT_parse_params_after error_exits (Suc k) params params_str = Some (params2, params_str2)"
proof (induction k arbitrary: params params_str)
  case 0
  then show ?case
    by simp
next
  case (Suc k)
  from Suc.prems(1) obtain d ds reported0 params0 params_str0 where
    s: "params_str = Some (d # ds)"
    and step: "WATT_parse_params_step error_exits params (d # ds) =
                 (reported0, Inr (params0, params_str0))"
    and rest: "WATT_parse_params_after error_exits k params0 params_str0 =
                 Some (params1, Some (c # cs))"
    by (auto split: option.splits list.splits prod.splits sum.splits)
  from Suc.IH [OF rest Suc.prems(2)]
  have "WATT_parse_params_after error_exits (Suc k) params0 params_str0 =
          Some (params2, params_str2)" .
  then show ?case
    unfolding s by (subst WATT_parse_params_after.simps) (simp add: step)
qed

lemma strtol_64abc: "strtol ''64abc'' = (64, ''abc'')"
  by code_simp

lemma strtol_32xy: "strtol ''32xy'' = (32, ''xy'')"
  by code_simp

lemma strcasecmp_N_Sample: "strcasecmp_eq ''N-Sample'' ''n-sample''"
  by code_simp

lemma strcasecmp_n_sample: "strcasecmp_eq ''n-sample'' ''n-sample''"
  by code_simp

text \<open>
  The branch of \<^verbatim>\<open>n-sample\<close> has no exit of its own: after the report the process ends
  when \<^verbatim>\<open>ERROR\<close> ends it, and otherwise parsing goes on with the number assigned.
\<close>

lemma parse_7abc:
  "WATT_parse_params_loop True \<lparr>n_sample = 64\<rparr> (Some ''n-sample=7abc'') =
     ([Param_Parsing_Error ''abc''], Inl (Param_Parsing_Error ''abc''))"
  "WATT_parse_params_loop False \<lparr>n_sample = 64\<rparr> (Some ''n-sample=7abc'') =
     ([Param_Parsing_Error ''abc''], Inr \<lparr>n_sample = 7\<rparr>)"
  by code_simp+

lemma parse_32xy:
  "WATT_parse_params_loop True \<lparr>n_sample = 64\<rparr> (Some ''n-sample=32xy'') =
     ([], Inr \<lparr>n_sample = 32\<rparr>)"
  "WATT_parse_params_loop False \<lparr>n_sample = 64\<rparr> (Some ''n-sample=32xy'') =
     ([], Inr \<lparr>n_sample = 32\<rparr>)"
  by code_simp+

section \<open>The example states evaluated\<close>

lemma example_score1: "WATT_score 5 (WATT example_obj1) = Fin 1"
  by code_simp

lemma example_score2:
  "WATT_score 5 (WATT example_obj2) = Fin (4803839602528529 / 72057594037927936)"
  by code_simp

lemma example_sampled: "WATT_sampled example_cache = [example_obj2, example_obj1, example_obj2]"
  by code_simp

lemma example_ids: "obj_id example_obj1 = 1" "obj_id example_obj2 = 2"
  by (simp_all add: example_obj1_def example_obj2_def)

lemma example_fields:
  "hashtable example_cache = [example_obj2, example_obj1]"
  "n_req example_cache = 5"
  "n_obj example_cache = 2"
  "eviction_params example_cache = \<lparr>n_sample = 3\<rparr>"
  "to_evict_candidate_gen_vtime example_cache = - 1"
  "rand_pos example_cache = 0"
  by (simp_all add: example_cache_def)

lemma example_to_evict:
  "WATT_to_evict example_cache =
     Inr (Some 2, example_cache\<lparr>rand_pos := 3, to_evict_candidate := Some 2,
                                to_evict_candidate_gen_vtime := 5\<rparr>)"
proof -
  have "hashtable example_cache \<noteq> []"
    by (simp add: example_fields)
  from WATT_to_evict_select [OF this] show ?thesis
    by (simp add: example_sampled example_fields example_score1 example_score2 example_ids)
qed

lemma example_reuse_fields:
  "hashtable_find [example_obj2, example_obj1] 1 = Some example_obj1"
  "hashtable_find [example_obj2, example_obj1] 2 = Some example_obj2"
  "hashtable_delete [example_obj2, example_obj1] 1 = [example_obj2]"
  "hashtable_delete [example_obj2, example_obj1] 2 = [example_obj1]"
  "obj_size example_obj1 = 10" "obj_size example_obj2 = 10"
  by (simp_all add: example_obj1_def example_obj2_def)

lemma example_evict_fresh_candidate:
  "WATT_evict example_cache =
     Inr (example_cache\<lparr>rand_pos := 3, to_evict_candidate := Some 2,
            to_evict_candidate_gen_vtime := - 1, hashtable := [example_obj1],
            n_obj := 1, occupied_byte := 10\<rparr>)"
  using example_to_evict
  by (simp add: WATT_evict_def WATT_evict_candidate_def cache_evict_base_def example_fields
      example_reuse_fields example_ids)
    (simp add: example_cache_def example_ids)

lemma example_evict_cached_candidate:
  "WATT_evict (example_cache\<lparr>to_evict_candidate := Some 1, to_evict_candidate_gen_vtime := 5\<rparr>) =
     Inr (example_cache\<lparr>to_evict_candidate := Some 1,
            to_evict_candidate_gen_vtime := - 1, hashtable := [example_obj2],
            n_obj := 1, occupied_byte := 10\<rparr>)"
  by (simp add: WATT_evict_def WATT_evict_candidate_def cache_evict_base_def example_fields
      example_reuse_fields example_ids)
    (simp add: example_cache_def example_ids)

lemma fresh_fields:
  "hashtable fresh_cache = [fresh_obj]"
  "n_req fresh_cache = 1"
  "n_obj fresh_cache = 1"
  "eviction_params fresh_cache = \<lparr>n_sample = 64\<rparr>"
  "to_evict_candidate_gen_vtime fresh_cache = - 1"
  "rand_pos fresh_cache = 0"
  by (simp_all add: fresh_cache_def)

lemma fresh_score: "WATT_score 1 (WATT fresh_obj) = PInf"
  by (rule WATT_score_zero_slot [of 0]) (simp_all add: WATT_scored_slots_def fresh_obj_def)

lemma fresh_to_evict:
  "WATT_to_evict fresh_cache =
     Inr (None, fresh_cache\<lparr>rand_pos := 64, to_evict_candidate := None,
                            to_evict_candidate_gen_vtime := 1\<rparr>)"
proof -
  have "hashtable fresh_cache \<noteq> []"
    by (simp add: fresh_fields)
  moreover have "\<forall>x\<in>set (hashtable fresh_cache). WATT_score (n_req fresh_cache) (WATT x) = PInf"
    by (simp add: fresh_fields fresh_score)
  ultimately show ?thesis
    by (simp add: WATT_to_evict_none fresh_fields)
qed

lemma empty_cache_init:
  "WATT_init error_exits (\<lambda>i. i) example_params None = Inr empty_cache"
  by (simp add: WATT_init_def cache_struct_init_def example_params_def empty_cache_def)

lemma fresh_cache_insert:
  "WATT_insert (empty_cache\<lparr>n_req := 1\<rparr>) \<lparr>req_obj_id = 1, req_obj_size = 10\<rparr> =
     Inr (1, fresh_cache)"
  by (simp add: WATT_insert_def cache_insert_base_def empty_cache_def fresh_cache_def
      fresh_obj_def ring_init)

section \<open>The claims\<close>

text \<open>
  \<^bold>\<open>C1\<close> fails on the code. On the cache right after its first insertion, still at the
  virtual time of the insertion, with the default \<^verbatim>\<open>n_sample = 64\<close>: the cache holds one
  object, every one of the 64 samples is this object, its distance to its latest access
  is zero, its score is infinite and so not below the initial score to beat, 1.0e16, and
  \<^verbatim>\<open>WATT_to_evict\<close> returns no candidate. \<^verbatim>\<open>WATT_evict\<close> in this state fails its own
  assertion that a missing candidate means an empty cache.
\<close>

theorem WATT_to_evict_fresh_no_candidate:
  "WATT_init True (\<lambda>i. i) example_params None = Inr empty_cache \<and>
   WATT_init False (\<lambda>i. i) example_params None = Inr empty_cache \<and>
   WATT_insert (empty_cache\<lparr>n_req := 1\<rparr>) \<lparr>req_obj_id = 1, req_obj_size = 10\<rparr> =
     Inr (1, fresh_cache) \<and>
   hashtable fresh_cache = [fresh_obj] \<and>
   n_obj fresh_cache = 1 \<and>
   WATT_sampled fresh_cache = replicate 64 fresh_obj \<and>
   WATT_score (n_req fresh_cache) (WATT fresh_obj) = PInf \<and>
   map_sum id fst (WATT_to_evict fresh_cache) = Inr None \<and>
   WATT_evict fresh_cache = Inl Assertion_Failed"
proof -
  have "WATT_sampled fresh_cache = map (\<lambda>i. fresh_obj) [0..<64]"
    by (simp add: WATT_sampled_def fresh_fields)
  then have "WATT_sampled fresh_cache = replicate 64 fresh_obj"
    by (simp only: map_replicate_const length_upt diff_zero)
  moreover have "WATT_evict fresh_cache = Inl Assertion_Failed"
    by (simp add: WATT_evict_def WATT_evict_candidate_def fresh_fields fresh_to_evict
        DEBUG_ASSERT_def)
  ultimately show ?thesis
    using empty_cache_init fresh_cache_insert fresh_to_evict fresh_score
    by (simp add: fresh_fields)
qed

text \<open>
  \<^bold>\<open>C2\<close>. After \<^verbatim>\<open>WATT_insert\<close> admitted an object at virtual time \<open>n_req c\<close> and the
  object was hit \<open>k = length ts\<close> times at the virtual times \<open>ts\<close>, the object is still
  found, its ring has eight slots, \<^verbatim>\<open>last_pos\<close> is \<open>k mod 8\<close>, and walking back from
  \<^verbatim>\<open>last_pos\<close> the first \<open>min (k + 1) 8\<close> slots hold the latest access times, latest
  first, while every slot further back still holds the time of insertion minus 3000000.
\<close>

theorem WATT_ring_after_touches:
  assumes "WATT_insert c req = Inr (p, c1)"
  shows "\<exists>x. hashtable_find (hashtable (WATT_touches c1 req ts)) (req_obj_id req) = Some x \<and>
           length (accesses (WATT x)) = 8 \<and>
           last_pos (WATT x) = length ts mod 8 \<and>
           (\<forall>i<8. accesses (WATT x) ! ((last_pos (WATT x) + 8 - i) mod 8) =
                (if i < min (length ts + 1) 8 then (n_req c # ts) ! (length ts - i)
                 else n_req c - 3000000))"
proof (induction ts rule: rev_induct)
  case Nil
  from WATT_insert_record [OF assms] obtain x where
    x: "hashtable_find (hashtable c1) (req_obj_id req) = Some x"
      "accesses (WATT x) =
             [n_req c, n_req c - 3000000, n_req c - 3000000, n_req c - 3000000,
              n_req c - 3000000, n_req c - 3000000, n_req c - 3000000, n_req c - 3000000]"
      "last_pos (WATT x) = 0"
    by blast
  have "accesses (WATT x) ! ((last_pos (WATT x) + 8 - i) mod 8) =
      (if i < min (length ([]::int list) + 1) 8 then (n_req c # []) ! (length ([]::int list) - i)
       else n_req c - 3000000)" if "i < 8" for i
  proof -
    from that have "i = 0 \<or> i = 1 \<or> i = 2 \<or> i = 3 \<or> i = 4 \<or> i = 5 \<or> i = 6 \<or> i = 7"
      by arith
    then show ?thesis
      by (elim disjE) (simp_all add: x(2,3))
  qed
  with x show ?case
    by auto
next
  case (snoc t ts)
  then obtain x where
    x: "hashtable_find (hashtable (WATT_touches c1 req ts)) (req_obj_id req) = Some x"
      "length (accesses (WATT x)) = 8" "last_pos (WATT x) = length ts mod 8"
      "\<forall>i<8. accesses (WATT x) ! ((length ts mod 8 + 8 - i) mod 8) =
                (if i < min (length ts + 1) 8 then (n_req c # ts) ! (length ts - i)
                 else n_req c - 3000000)"
    by auto
  let ?y = "x\<lparr>WATT := \<lparr>accesses = (accesses (WATT x))[(last_pos (WATT x) + 1) mod 8 := t],
                        last_pos = (last_pos (WATT x) + 1) mod 8\<rparr>\<rparr>"
  have f: "hashtable_find (hashtable (WATT_touches c1 req (ts @ [t]))) (req_obj_id req) = Some ?y"
    unfolding WATT_touches_snoc by (rule WATT_find_touch [OF x(1)])
  have lp: "(length ts mod 8 + 1) mod 8 = length (ts @ [t]) mod 8"
    by (simp add: mod_Suc_eq)
  have "length (n_req c # ts) = length ts + 1"
    by simp
  from ring_step [OF x(2) x(4) this, of t]
  have r: "\<forall>i<8. (accesses (WATT x))[(length ts mod 8 + 1) mod 8 := t] !
              (((length ts mod 8 + 1) mod 8 + 8 - i) mod 8) =
            (if i < min (length ts + 2) 8
             then ((n_req c # ts) @ [t]) ! (length ts + 1 - i) else n_req c - 3000000)" .
  have "length (accesses (WATT ?y)) = 8"
    using x(2) by simp
  moreover have "last_pos (WATT ?y) = length (ts @ [t]) mod 8"
    using lp by (simp add: x(3))
  moreover have "accesses (WATT ?y) ! ((last_pos (WATT ?y) + 8 - i) mod 8) =
         (if i < min (length (ts @ [t]) + 1) 8
          then (n_req c # ts @ [t]) ! (length (ts @ [t]) - i) else n_req c - 3000000)"
    if "i < 8" for i
  proof -
    have e: "length (ts @ [t]) + 1 = length ts + 2" "length (ts @ [t]) - i = length ts + 1 - i"
      "n_req c # ts @ [t] = (n_req c # ts) @ [t]"
      by simp_all
    have y: "accesses (WATT ?y) = (accesses (WATT x))[(length ts mod 8 + 1) mod 8 := t]"
      "last_pos (WATT ?y) = (length ts mod 8 + 1) mod 8"
      by (simp_all add: x(3))
    show ?thesis
      unfolding e y by (rule r [rule_format, OF that])
  qed
  ultimately have "length (accesses (WATT ?y)) = 8 \<and> last_pos (WATT ?y) = length (ts @ [t]) mod 8 \<and>
      (\<forall>i<8. accesses (WATT ?y) ! ((last_pos (WATT ?y) + 8 - i) mod 8) =
         (if i < min (length (ts @ [t]) + 1) 8
          then (n_req c # ts @ [t]) ! (length (ts @ [t]) - i) else n_req c - 3000000))"
    by blast
  with f show ?case
    by blast
qed

theorem WATT_ring_after_touches_witness:
  "WATT_insert (empty_cache\<lparr>n_req := 1\<rparr>) \<lparr>req_obj_id = 1, req_obj_size = 10\<rparr> =
     Inr (1, fresh_cache) \<and>
   hashtable_find
     (hashtable (WATT_touches fresh_cache \<lparr>req_obj_id = 1, req_obj_size = 10\<rparr> [3, 4])) 1 =
     Some example_obj1 \<and>
   hashtable_find
     (hashtable (WATT_touches fresh_cache \<lparr>req_obj_id = 1, req_obj_size = 10\<rparr>
        [2, 3, 4, 5, 6, 7, 8, 9, 10])) 1 =
     Some \<lparr>obj_id = 1, obj_size = 10,
           WATT = \<lparr>accesses = [9, 10, 3, 4, 5, 6, 7, 8], last_pos = 1\<rparr>\<rparr>"
  using WATT_ring_after_touches [OF fresh_cache_insert, of "[3, 4]"]
    WATT_ring_after_touches [OF fresh_cache_insert, of "[2, 3, 4, 5, 6, 7, 8, 9, 10]"]
    fresh_cache_insert
  by (simp add: WATT_find_def cache_find_base_def fresh_cache_def fresh_obj_def example_obj1_def
      Let_def)

text \<open>
  \<^bold>\<open>C3\<close>. Whenever \<^verbatim>\<open>WATT_evict\<close> completes: if the cached tick equals the request
  counter, the evicted object is the cached candidate and no sample was drawn; otherwise
  the evicted object is the one \<^verbatim>\<open>WATT_to_evict\<close> returns; in both cases the cached tick
  is -1 afterwards, so that a later eviction at any virtual time other than -1 computes
  its candidate afresh.
\<close>

theorem WATT_evict_candidate_tick:
  "(WATT_evict c = Inr c' \<longrightarrow> to_evict_candidate_gen_vtime c = n_req c \<longrightarrow>
      (\<exists>p. to_evict_candidate c = Some p \<and>
           hashtable c' = hashtable_delete (hashtable c) p \<and>
           rand_pos c' = rand_pos c)) \<and>
   (WATT_evict c = Inr c' \<longrightarrow> to_evict_candidate_gen_vtime c \<noteq> n_req c \<longrightarrow>
      (\<exists>p c1. WATT_to_evict c = Inr (Some p, c1) \<and>
           hashtable c' = hashtable_delete (hashtable c) p)) \<and>
   (WATT_evict c = Inr c' \<longrightarrow>
      to_evict_candidate_gen_vtime c' = - 1 \<and>
      (n_req c' \<noteq> - 1 \<longrightarrow> WATT_evict_candidate c' = WATT_to_evict c'))"
proof -
  have tick: "to_evict_candidate_gen_vtime c' = - 1" and h': "hashtable c' = hashtable_delete (hashtable c1) p"
    and r': "rand_pos c' = rand_pos c1"
    if "WATT_evict_candidate c = Inr (Some p, c1)" and "WATT_evict c = Inr c'" for p c1
    using that
    by (auto simp: WATT_evict_def cache_evict_base_def Let_def split: option.splits)
  have some: "\<exists>p c1. WATT_evict_candidate c = Inr (Some p, c1)" if "WATT_evict c = Inr c'"
    using that
    by (auto simp: WATT_evict_def cache_evict_base_def Let_def DEBUG_ASSERT_def
        split: sum.splits option.splits if_splits)
  show ?thesis
  proof (intro conjI impI)
    assume ev: "WATT_evict c = Inr c'" and eq: "to_evict_candidate_gen_vtime c = n_req c"
    from some [OF ev] obtain p c1 where sel: "WATT_evict_candidate c = Inr (Some p, c1)"
      by blast
    with eq have "to_evict_candidate c = Some p" and "c1 = c"
      by (auto simp: WATT_evict_candidate_def)
    with h' [OF sel ev] r' [OF sel ev]
    show "\<exists>p. to_evict_candidate c = Some p \<and>
           hashtable c' = hashtable_delete (hashtable c) p \<and> rand_pos c' = rand_pos c"
      by simp
  next
    assume ev: "WATT_evict c = Inr c'" and ne: "to_evict_candidate_gen_vtime c \<noteq> n_req c"
    from some [OF ev] obtain p c1 where sel: "WATT_evict_candidate c = Inr (Some p, c1)"
      by blast
    with ne have te: "WATT_to_evict c = Inr (Some p, c1)"
      by (simp add: WATT_evict_candidate_def)
    then have "hashtable c1 = hashtable c"
      by (auto dest!: WATT_to_evict_state)
    with h' [OF sel ev] te
    show "\<exists>p c1. WATT_to_evict c = Inr (Some p, c1) \<and>
           hashtable c' = hashtable_delete (hashtable c) p"
      by simp
  next
    assume ev: "WATT_evict c = Inr c'"
    from some [OF ev] obtain p c1 where sel: "WATT_evict_candidate c = Inr (Some p, c1)"
      by blast
    from tick [OF sel ev] show "to_evict_candidate_gen_vtime c' = - 1" .
  next
    assume ev: "WATT_evict c = Inr c'" and "n_req c' \<noteq> - 1"
    from some [OF ev] obtain p c1 where sel: "WATT_evict_candidate c = Inr (Some p, c1)"
      by blast
    from tick [OF sel ev] \<open>n_req c' \<noteq> - 1\<close>
    show "WATT_evict_candidate c' = WATT_to_evict c'"
      by (simp add: WATT_evict_candidate_def)
  qed
qed

theorem WATT_evict_candidate_tick_witness:
  "WATT_evict (example_cache\<lparr>to_evict_candidate := Some 1, to_evict_candidate_gen_vtime := 5\<rparr>) =
     Inr (example_cache\<lparr>to_evict_candidate := Some 1,
            to_evict_candidate_gen_vtime := - 1, hashtable := [example_obj2],
            n_obj := 1, occupied_byte := 10\<rparr>) \<and>
   to_evict_candidate_gen_vtime
     (example_cache\<lparr>to_evict_candidate := Some 1, to_evict_candidate_gen_vtime := 5\<rparr>) =
     n_req (example_cache\<lparr>to_evict_candidate := Some 1, to_evict_candidate_gen_vtime := 5\<rparr>) \<and>
   WATT_evict example_cache =
     Inr (example_cache\<lparr>rand_pos := 3, to_evict_candidate := Some 2,
            to_evict_candidate_gen_vtime := - 1, hashtable := [example_obj1],
            n_obj := 1, occupied_byte := 10\<rparr>) \<and>
   to_evict_candidate_gen_vtime example_cache \<noteq> n_req example_cache \<and>
   WATT_to_evict example_cache =
     Inr (Some 2, example_cache\<lparr>rand_pos := 3, to_evict_candidate := Some 2,
                                to_evict_candidate_gen_vtime := 5\<rparr>)"
  using WATT_evict_candidate_tick
      [of "example_cache\<lparr>to_evict_candidate := Some 1, to_evict_candidate_gen_vtime := 5\<rparr>"
          "example_cache\<lparr>to_evict_candidate := Some 1,
            to_evict_candidate_gen_vtime := - 1, hashtable := [example_obj2],
            n_obj := 1, occupied_byte := 10\<rparr>"]
    WATT_evict_candidate_tick
      [of example_cache
          "example_cache\<lparr>rand_pos := 3, to_evict_candidate := Some 2,
            to_evict_candidate_gen_vtime := - 1, hashtable := [example_obj1],
            n_obj := 1, occupied_byte := 10\<rparr>"]
    example_evict_cached_candidate example_evict_fresh_candidate example_to_evict
  by (simp add: example_fields)

text \<open>
  \<^bold>\<open>C4\<close> fails on the code. On the empty cache that \<^verbatim>\<open>WATT_init\<close> builds with the default
  parameters, \<^verbatim>\<open>WATT_to_evict\<close> samples the empty index and reads through the pointer it
  gets: the outcome is a fault, not the ordinary result "no candidate".
\<close>

theorem WATT_to_evict_empty_cache:
  "WATT_init True (\<lambda>i. i) example_params None = Inr empty_cache \<and>
   WATT_init False (\<lambda>i. i) example_params None = Inr empty_cache \<and>
   n_obj empty_cache = 0 \<and> hashtable empty_cache = [] \<and>
   WATT_to_evict empty_cache = Inl Null_Dereference"
proof -
  have "hashtable empty_cache = []" "0 < n_sample (eviction_params empty_cache)"
    by (simp_all add: empty_cache_def)
  then have "WATT_to_evict empty_cache = Inl Null_Dereference"
    by (rule WATT_to_evict_empty_store)
  then show ?thesis
    by (simp add: empty_cache_init) (simp add: empty_cache_def)
qed

text \<open>
  \<^bold>\<open>C5\<close>. When the candidate selection of \<^verbatim>\<open>WATT_evict\<close> yields no object although the
  object count is not zero, \<^verbatim>\<open>WATT_evict\<close> ends with the failed assertion and returns no
  cache to continue with.
\<close>

theorem WATT_evict_no_candidate_fatal:
  assumes "WATT_evict_candidate c = Inr (None, c1)" and "n_obj c \<noteq> 0"
  shows "WATT_evict c = Inl Assertion_Failed"
proof -
  have "n_obj c1 = n_obj c"
    using assms(1)
    by (auto simp: WATT_evict_candidate_def split: if_splits dest!: WATT_to_evict_state)
  with assms show ?thesis
    by (simp add: WATT_evict_def DEBUG_ASSERT_def)
qed

theorem WATT_evict_no_candidate_fatal_witness:
  "WATT_evict_candidate fresh_cache =
     Inr (None, fresh_cache\<lparr>rand_pos := 64, to_evict_candidate := None,
                            to_evict_candidate_gen_vtime := 1\<rparr>) \<and>
   n_obj fresh_cache \<noteq> 0 \<and> WATT_evict fresh_cache = Inl Assertion_Failed"
proof -
  have sel: "WATT_evict_candidate fresh_cache =
     Inr (None, fresh_cache\<lparr>rand_pos := 64, to_evict_candidate := None,
                            to_evict_candidate_gen_vtime := 1\<rparr>)"
    by (simp add: WATT_evict_candidate_def fresh_fields fresh_to_evict)
  have n: "n_obj fresh_cache \<noteq> 0"
    by (simp add: fresh_fields)
  from WATT_evict_no_candidate_fatal [OF sel n] sel n show ?thesis
    by simp
qed

text \<open>
  \<^bold>\<open>C6\<close>. An object of a cache with unique identities that has, in a slot the score reads,
  an access at the current virtual time scores plus infinity, and \<^verbatim>\<open>WATT_to_evict\<close>
  returns without naming this object as the candidate.
\<close>

theorem WATT_zero_distance_never_candidate:
  assumes "x \<in> set (hashtable c)" and "distinct (map obj_id (hashtable c))"
    and "slot \<in> set (WATT_scored_slots (WATT x))"
    and "accesses (WATT x) ! slot = n_req c"
  shows "WATT_score (n_req c) (WATT x) = PInf \<and>
    (\<exists>r c'. WATT_to_evict c = Inr (r, c') \<and> r \<noteq> Some (obj_id x))"
proof -
  have ne: "hashtable c \<noteq> []"
    using assms(1) by auto
  have inf: "WATT_score (n_req c) (WATT x) = PInf"
    using assms(3,4) by (rule WATT_score_zero_slot)
  from WATT_to_evict_select [OF ne] obtain r c' where te: "WATT_to_evict c = Inr (r, c')"
    by blast
  have "r \<noteq> Some (obj_id x)"
  proof
    assume "r = Some (obj_id x)"
    with WATT_to_evict_candidate [OF ne te] obtain j where j: "j < length (WATT_sampled c)"
        "obj_id x = obj_id (WATT_sampled c ! j)"
        "dgt (Fin 10000000000000000) (WATT_score (n_req c) (WATT (WATT_sampled c ! j)))"
      by auto
    from j(1) have "WATT_sampled c ! j \<in> set (hashtable c)"
      using WATT_sampled_subset [OF ne] by auto
    with assms(1,2) j(2) have "WATT_sampled c ! j = x"
      by (auto simp: distinct_map inj_on_def)
    with j(3) inf show False
      by simp
  qed
  with inf te show ?thesis
    by blast
qed

theorem WATT_zero_distance_never_candidate_witness:
  "example_obj1 \<in> set (hashtable (example_cache\<lparr>n_req := 4\<rparr>)) \<and>
   distinct (map obj_id (hashtable (example_cache\<lparr>n_req := 4\<rparr>))) \<and>
   2 \<in> set (WATT_scored_slots (WATT example_obj1)) \<and>
   accesses (WATT example_obj1) ! 2 = n_req (example_cache\<lparr>n_req := 4\<rparr>) \<and>
   WATT_score 4 (WATT example_obj1) = PInf \<and>
   (\<exists>r c'. WATT_to_evict (example_cache\<lparr>n_req := 4\<rparr>) = Inr (r, c') \<and> r \<noteq> Some 1)"
proof -
  have 1: "example_obj1 \<in> set (hashtable (example_cache\<lparr>n_req := 4\<rparr>))"
    by (simp add: example_fields)
  have 2: "distinct (map obj_id (hashtable (example_cache\<lparr>n_req := 4\<rparr>)))"
    by (simp add: example_fields example_ids)
  have 3: "2 \<in> set (WATT_scored_slots (WATT example_obj1))"
    by (simp add: WATT_scored_slots_def example_obj1_def)
  have 4: "accesses (WATT example_obj1) ! 2 = n_req (example_cache\<lparr>n_req := 4\<rparr>)"
    by (simp add: example_obj1_def)
  from WATT_zero_distance_never_candidate [OF 1 2 3 4] 1 2 3 4 show ?thesis
    by (simp add: example_ids)
qed

text \<open>
  \<^bold>\<open>C8\<close>, as amended. Let the loop of \<^verbatim>\<open>WATT_parse_params\<close> on the string \<open>s\<close> get, after
  any number \<open>k\<close> of iterations, to a pair whose key is \<^verbatim>\<open>n-sample\<close> in any letter case,
  and let \<^verbatim>\<open>strtol\<close> read the number \<open>n\<close> from the value of the pair (the text up to
  the next comma) and leave \<open>e\<close> unread. When \<open>e\<close> has more than two characters, the
  parsing error that carries \<open>e\<close> is among what \<^verbatim>\<open>WATT_parse_params\<close> reports. When
  \<open>e\<close> has at most two characters, the iteration reports nothing, the next iteration
  starts behind the pair with \<^verbatim>\<open>n_sample\<close> set to \<open>n\<close> cast to \<^verbatim>\<open>int\<close>, and
  \<^verbatim>\<open>WATT_parse_params\<close> ends as the loop does from there.
\<close>

theorem WATT_parse_params_n_sample_pair:
  assumes "WATT_parse_params_after error_exits k (eviction_params c) (Some s) =
             Some (params1, Some (key @ CHR ''='' # rest))"
    and "strcasecmp_eq key ''n-sample''"
    and "strtol (takeWhile (\<lambda>x. x \<noteq> CHR '','') rest) = (n, e)"
  shows "(2 < length e \<longrightarrow>
            Param_Parsing_Error e \<in> set (fst (WATT_parse_params error_exits c s))) \<and>
         (length e \<le> 2 \<longrightarrow>
            fst (WATT_parse_params_step error_exits params1 (key @ CHR ''='' # rest)) = [] \<and>
            WATT_parse_params_after error_exits (Suc k) (eviction_params c) (Some s) =
              Some (params1\<lparr>n_sample := int_of_long n\<rparr>,
                    map_option (dropWhile (\<lambda>x. x = CHR '' ''))
                      (snd (strsep (Some rest) CHR '',''))) \<and>
            snd (WATT_parse_params error_exits c s) =
              map_sum id (\<lambda>params. c\<lparr>eviction_params := params\<rparr>)
                (snd (WATT_parse_params_loop error_exits (params1\<lparr>n_sample := int_of_long n\<rparr>)
                       (map_option (dropWhile (\<lambda>x. x = CHR '' ''))
                          (snd (strsep (Some rest) CHR '',''))))))"
proof -
  let ?pair = "key @ CHR ''='' # rest"
  let ?params2 = "params1\<lparr>n_sample := int_of_long n\<rparr>"
  let ?next = "map_option (dropWhile (\<lambda>x. x = CHR '' '')) (snd (strsep (Some rest) CHR '',''))"
  obtain x xs where pair: "?pair = x # xs"
    by (cases ?pair) simp_all
  note step = WATT_parse_params_step_n_sample [OF assms(2,3), of error_exits params1]
  from WATT_parse_params_after_loop [OF assms(1)] obtain pre where
    pre: "fst (WATT_parse_params_loop error_exits (eviction_params c) (Some s)) =
            pre @ fst (WATT_parse_params_loop error_exits params1 (Some ?pair))"
         "snd (WATT_parse_params_loop error_exits (eviction_params c) (Some s)) =
            snd (WATT_parse_params_loop error_exits params1 (Some ?pair))"
    by blast
  have parse: "WATT_parse_params error_exits c s =
      (fst (WATT_parse_params_loop error_exits (eviction_params c) (Some s)),
       map_sum id (\<lambda>params. c\<lparr>eviction_params := params\<rparr>)
         (snd (WATT_parse_params_loop error_exits (eviction_params c) (Some s))))"
    by (simp add: WATT_parse_params_def split: prod.splits sum.splits)
  have long: "Param_Parsing_Error e \<in> set (fst (WATT_parse_params error_exits c s))"
    if "2 < length e"
  proof -
    have "Param_Parsing_Error e \<in>
        set (fst (WATT_parse_params_loop error_exits params1 (Some (x # xs))))"
      using that step unfolding pair by (simp split: prod.splits)
    then show ?thesis
      by (simp add: parse pre(1) pair)
  qed
  have short: "fst (WATT_parse_params_step error_exits params1 ?pair) = [] \<and>
      WATT_parse_params_after error_exits (Suc k) (eviction_params c) (Some s) =
        Some (?params2, ?next) \<and>
      snd (WATT_parse_params error_exits c s) =
        map_sum id (\<lambda>params. c\<lparr>eviction_params := params\<rparr>)
          (snd (WATT_parse_params_loop error_exits ?params2 ?next))"
    if "length e \<le> 2"
  proof -
    from that step have st: "WATT_parse_params_step error_exits params1 (x # xs) =
        ([], Inr (?params2, ?next))"
      unfolding pair by simp
    have "WATT_parse_params_after error_exits (Suc k) (eviction_params c) (Some s) =
        Some (?params2, ?next)"
      using assms(1) st unfolding pair by (rule WATT_parse_params_after_Suc)
    moreover have "snd (WATT_parse_params_loop error_exits params1 (Some (x # xs))) =
        snd (WATT_parse_params_loop error_exits ?params2 ?next)"
      by (simp add: st split: prod.splits)
    ultimately show ?thesis
      using st by (simp add: parse pre(2) pair)
  qed
  from long short show ?thesis
    by blast
qed

theorem WATT_parse_params_n_sample_pair_witness:
  "WATT_parse_params_after True 1 (eviction_params empty_cache)
       (Some ''n-sample=1,N-Sample=64abc,n-sample=3'') =
     Some (\<lparr>n_sample = 1\<rparr>, Some ''N-Sample=64abc,n-sample=3'') \<and>
   strcasecmp_eq ''N-Sample'' ''n-sample'' \<and>
   strtol ''64abc'' = (64, ''abc'') \<and>
   Param_Parsing_Error ''abc'' \<in>
     set (fst (WATT_parse_params True empty_cache ''n-sample=1,N-Sample=64abc,n-sample=3'')) \<and>
   WATT_parse_params_after False 1 (eviction_params empty_cache)
       (Some ''n-sample=1, n-sample=32xy'') =
     Some (\<lparr>n_sample = 1\<rparr>, Some ''n-sample=32xy'') \<and>
   strtol ''32xy'' = (32, ''xy'') \<and>
   WATT_parse_params_after False 2 (eviction_params empty_cache)
       (Some ''n-sample=1, n-sample=32xy'') =
     Some (\<lparr>n_sample = 32\<rparr>, None) \<and>
   snd (WATT_parse_params False empty_cache ''n-sample=1, n-sample=32xy'') =
     Inr (empty_cache\<lparr>eviction_params := \<lparr>n_sample = 32\<rparr>\<rparr>) \<and>
   strtol ''4294967297x'' = (4294967297, ''x'') \<and>
   snd (WATT_parse_params True empty_cache ''n-sample=4294967297x'') =
     Inr (empty_cache\<lparr>eviction_params := \<lparr>n_sample = 1\<rparr>\<rparr>) \<and>
   strtol ''xy'' = (0, ''xy'') \<and>
   snd (WATT_parse_params False empty_cache ''n-sample=xy'') =
     Inr (empty_cache\<lparr>eviction_params := \<lparr>n_sample = 0\<rparr>\<rparr>)"
proof -
  have p: "eviction_params empty_cache = \<lparr>n_sample = 64\<rparr>"
    by (simp add: empty_cache_def)
  have a1: "WATT_parse_params_after True 1 \<lparr>n_sample = 64\<rparr>
       (Some ''n-sample=1,N-Sample=64abc,n-sample=3'') =
     Some (\<lparr>n_sample = 1\<rparr>, Some ''N-Sample=64abc,n-sample=3'')"
    by code_simp
  have b1: "WATT_parse_params_after False 1 \<lparr>n_sample = 64\<rparr>
       (Some ''n-sample=1, n-sample=32xy'') =
     Some (\<lparr>n_sample = 1\<rparr>, Some ''n-sample=32xy'')"
    by code_simp
  have c1: "WATT_parse_params_after True 0 (eviction_params empty_cache)
       (Some ''n-sample=4294967297x'') =
     Some (\<lparr>n_sample = 64\<rparr>, Some (''n-sample'' @ CHR ''='' # ''4294967297x''))"
    by (simp add: p)
  have c3: "strtol ''4294967297x'' = (4294967297, ''x'')"
    by code_simp
  have a2: "WATT_parse_params_after True 1 (eviction_params empty_cache)
       (Some ''n-sample=1,N-Sample=64abc,n-sample=3'') =
     Some (\<lparr>n_sample = 1\<rparr>, Some (''N-Sample'' @ CHR ''='' # ''64abc,n-sample=3''))"
    by (simp only: p a1) simp
  have b2: "WATT_parse_params_after False 1 (eviction_params empty_cache)
       (Some ''n-sample=1, n-sample=32xy'') =
     Some (\<lparr>n_sample = 1\<rparr>, Some (''n-sample'' @ CHR ''='' # ''32xy''))"
    by (simp only: p b1) simp
  have a3: "strtol (takeWhile (\<lambda>x. x \<noteq> CHR '','') ''64abc,n-sample=3'') = (64, ''abc'')"
    by (simp add: strtol_64abc)
  have b3: "strtol (takeWhile (\<lambda>x. x \<noteq> CHR '','') ''32xy'') = (32, ''xy'')"
    by (simp add: strtol_32xy)
  have c4: "strtol (takeWhile (\<lambda>x. x \<noteq> CHR '','') ''4294967297x'') = (4294967297, ''x'')"
    by (simp add: c3)
  have d1: "WATT_parse_params_after False 0 (eviction_params empty_cache)
       (Some ''n-sample=xy'') =
     Some (\<lparr>n_sample = 64\<rparr>, Some (''n-sample'' @ CHR ''='' # ''xy''))"
    by (simp add: p)
  have d3: "strtol ''xy'' = (0, ''xy'')"
    by code_simp
  have d4: "strtol (takeWhile (\<lambda>x. x \<noteq> CHR '','') ''xy'') = (0, ''xy'')"
    by (simp add: d3)
  have cast: "int_of_long 32 = 32" "int_of_long 4294967297 = 1" "int_of_long 0 = 0"
    by (simp_all add: int_of_long_def)
  have last: "snd (strsep (Some ''32xy'') CHR '','') = None"
    "snd (strsep (Some ''4294967297x'') CHR '','') = None"
    "snd (strsep (Some ''xy'') CHR '','') = None"
    by (simp_all add: strsep_def)
  from WATT_parse_params_n_sample_pair [OF a2 strcasecmp_N_Sample a3]
  have a: "Param_Parsing_Error ''abc'' \<in>
     set (fst (WATT_parse_params True empty_cache ''n-sample=1,N-Sample=64abc,n-sample=3''))"
    by simp
  from WATT_parse_params_n_sample_pair [OF b2 strcasecmp_n_sample b3]
  have b: "WATT_parse_params_after False 2 (eviction_params empty_cache)
       (Some ''n-sample=1, n-sample=32xy'') =
     Some (\<lparr>n_sample = 32\<rparr>, None)"
    "snd (WATT_parse_params False empty_cache ''n-sample=1, n-sample=32xy'') =
     Inr (empty_cache\<lparr>eviction_params := \<lparr>n_sample = 32\<rparr>\<rparr>)"
    by (simp_all add: cast last numeral_2_eq_2 del: WATT_parse_params_after.simps)
  from WATT_parse_params_n_sample_pair [OF c1 strcasecmp_n_sample c4]
  have c: "snd (WATT_parse_params True empty_cache ''n-sample=4294967297x'') =
     Inr (empty_cache\<lparr>eviction_params := \<lparr>n_sample = 1\<rparr>\<rparr>)"
    by (simp add: cast last del: WATT_parse_params_after.simps)
  from WATT_parse_params_n_sample_pair [OF d1 strcasecmp_n_sample d4]
  have d: "snd (WATT_parse_params False empty_cache ''n-sample=xy'') =
     Inr (empty_cache\<lparr>eviction_params := \<lparr>n_sample = 0\<rparr>\<rparr>)"
    by (simp add: cast last del: WATT_parse_params_after.simps)
  from a b c d show ?thesis
    using a1 b1 c3 d3 strcasecmp_N_Sample strtol_64abc strtol_32xy
    by (simp only: p simp_thms)
qed

text \<open>
  \<^bold>\<open>C8\<close> as stated fails on the value \<^verbatim>\<open>32xy\<close>: two characters follow the number,
  \<^verbatim>\<open>WATT_parse_params\<close> reports nothing, and \<^verbatim>\<open>WATT_init\<close> returns a cache with
  \<^verbatim>\<open>n_sample = 32\<close>, whether or not \<^verbatim>\<open>ERROR\<close> ends the process.
\<close>

theorem WATT_parse_params_short_garbage_accepted:
  "strtol ''32xy'' = (32, ''xy'') \<and>
   WATT_parse_params True empty_cache ''n-sample=32xy'' =
     ([], Inr (empty_cache\<lparr>eviction_params := \<lparr>n_sample = 32\<rparr>\<rparr>)) \<and>
   WATT_parse_params False empty_cache ''n-sample=32xy'' =
     ([], Inr (empty_cache\<lparr>eviction_params := \<lparr>n_sample = 32\<rparr>\<rparr>)) \<and>
   WATT_init True (\<lambda>i. i) example_params (Some ''n-sample=32xy'') =
     Inr (empty_cache\<lparr>eviction_params := \<lparr>n_sample = 32\<rparr>\<rparr>) \<and>
   WATT_init False (\<lambda>i. i) example_params (Some ''n-sample=32xy'') =
     Inr (empty_cache\<lparr>eviction_params := \<lparr>n_sample = 32\<rparr>\<rparr>)"
  by (simp add: strtol_32xy WATT_init_def WATT_parse_params_def cache_struct_init_def parse_32xy
      example_params_def empty_cache_def del: WATT_parse_params_loop.simps)

text \<open>
  \<^bold>\<open>C9\<close>. When the identity is absent \<^verbatim>\<open>WATT_find\<close> returns no object and the cache
  unchanged, with or without \<^verbatim>\<open>update_cache\<close>; and without \<^verbatim>\<open>update_cache\<close> it returns
  what the lookup finds and the cache unchanged, so no ring and no \<^verbatim>\<open>last_pos\<close> is
  written.
\<close>

theorem WATT_find_frame:
  "(hashtable_find (hashtable c) (req_obj_id req) = None \<longrightarrow>
      WATT_find c req update_cache = (None, c)) \<and>
   WATT_find c req False =
     (map_option obj_id (hashtable_find (hashtable c) (req_obj_id req)), c)"
  by (cases "hashtable_find (hashtable c) (req_obj_id req)")
    (simp_all add: WATT_find_def cache_find_base_def Let_def)

theorem WATT_find_frame_witness:
  "hashtable_find (hashtable example_cache) 7 = None \<and>
   WATT_find example_cache \<lparr>req_obj_id = 7, req_obj_size = 10\<rparr> True = (None, example_cache) \<and>
   WATT_find example_cache \<lparr>req_obj_id = 1, req_obj_size = 10\<rparr> False = (Some 1, example_cache)"
  using WATT_find_frame [of example_cache "\<lparr>req_obj_id = 7, req_obj_size = 10\<rparr>" True]
    WATT_find_frame [of example_cache "\<lparr>req_obj_id = 1, req_obj_size = 10\<rparr>" True]
  by (simp add: example_fields example_ids)

text \<open>
  \<^bold>\<open>C10\<close>. \<^verbatim>\<open>WATT_init\<close> without policy parameters returns a cache, and every cache it
  returns was built from the parameters of the caller with \<^verbatim>\<open>hashpower\<close> replaced by the
  greater of 12 and the requested \<^verbatim>\<open>hashpower\<close> minus 8. The parameters of the caller
  are a value of the model and stay as they are.
\<close>

theorem WATT_init_hashpower:
  "(\<exists>c. WATT_init error_exits seed p None = Inr c) \<and>
   (\<forall>c. WATT_init error_exits seed p s = Inr c \<longrightarrow>
      init_params c = p\<lparr>hashpower := max 12 (hashpower p - 8)\<rparr>)"
  by (auto simp: WATT_init_def WATT_parse_params_def cache_struct_init_def Let_def
      split: option.splits sum.splits prod.splits)

theorem WATT_init_hashpower_witness:
  "WATT_init True (\<lambda>i. i) example_params None = Inr empty_cache \<and>
   hashpower example_params = 24 \<and> hashpower (init_params empty_cache) = 16 \<and>
   (\<exists>c. WATT_init True (\<lambda>i. i) (example_params\<lparr>hashpower := 10\<rparr>) (Some ''n-sample=32'') = Inr c \<and>
        hashpower (init_params c) = 12)"
proof -
  have p: "WATT_parse_params_loop True \<lparr>n_sample = 64\<rparr> (Some ''n-sample=32'') =
      ([], Inr \<lparr>n_sample = 32\<rparr>)"
    by code_simp
  have "\<exists>c. WATT_init True (\<lambda>i. i) (example_params\<lparr>hashpower := 10\<rparr>) (Some ''n-sample=32'') = Inr c"
    by (simp add: WATT_init_def WATT_parse_params_def cache_struct_init_def p
        del: WATT_parse_params_loop.simps)
  then obtain c where c: "WATT_init True (\<lambda>i. i) (example_params\<lparr>hashpower := 10\<rparr>) (Some ''n-sample=32'') = Inr c"
    by blast
  from WATT_init_hashpower [of True "\<lambda>i. i" "example_params\<lparr>hashpower := 10\<rparr>" "Some ''n-sample=32''"] c
  have "hashpower (init_params c) = 12"
    by (simp add: example_params_def)
  moreover from WATT_init_hashpower [of True "\<lambda>i. i" example_params None] empty_cache_init
  have "hashpower (init_params empty_cache) = 16"
    by (simp add: example_params_def)
  ultimately show ?thesis
    using c empty_cache_init by (auto simp: example_params_def)
qed

end
